theory Spec2Isabelle
  imports Complex_Main "HOL-Library.Word"
begin

section \<open>Data model\<close>

text \<open>
  The renderer works on images of three bytes per pixel, on float pixel coordinates and
  on polar lines. A byte is an \<open>8 word\<close>. The \<open>unsigned int\<close> dimensions and indices
  are naturals, with the wrap-around at \<open>2 ^ 32\<close> written out where the source
  multiplies them; a 16-bit count of the Hough accumulator is the natural number
  that its two bytes hold.

  A \<open>float\<close> is modelled by the real number it denotes. In the vertex arrays of the
  painter (\<open>DrawImage\<close>, \<open>DrawLine\<close>, \<open>ExtractImage\<close>) the arithmetic is that of
  the reals: rounding is not modelled there, and a division whose divisor can be zero is
  written with \<open>fdivf\<close>, which has no result there, so that a path on which IEEE
  arithmetic would produce an infinity or a NaN ends in the error \<open>NonFinite\<close> instead
  of a number. Where rounding decides what the program does, it is modelled bit by bit
  (IEEE 754, round to nearest even): in the clipper of \<open>DrawLines\<close>, whose tests
  compare rounded values with each other and with the \<open>double\<close> constant \<open>M_PI\<close>
  (subsection \<open>Binary floating point\<close>), and in the Hough rescale, whose result is cut
  to an integer (subsection \<open>Single precision\<close>).
\<close>

type_synonym byte = "8 word"

record Image =
  width :: nat
  height :: nat
  data :: "byte list"

record Point =
  px :: real
  py :: real

record Line =
  theta :: real
  rho :: real

datatype error = NonFinite | OutOfBounds | ConversionUndefined

definition fdivf :: "real \<Rightarrow> real \<Rightarrow> real option" where
  "fdivf a b = (if b = 0 then None else Some (a / b))"

subsection \<open>The painter and the commands it submits\<close>

text \<open>
  OpenGL is outside the program. A draw call of the source builds a vertex array and an
  index array and hands them to the driver; the model records exactly these arrays, in
  the order of submission. Every texture, buffer and vertex array of a call is created
  and deleted inside the call, so a command carries all that the call leaves behind.
  The pixels that \<open>glReadPixels\<close> returns after the off-screen pass of
  \<open>ExtractImage\<close> are given by a parameter \<open>readPixels\<close> of the model.
\<close>

datatype gl_command =
  Triangles "real list" "nat list" Image
  | Lines "real list" "nat list"
  | Offscreen "real list" "nat list" Image nat nat

record Painter =
  windowWidth :: real
  windowHeight :: real
  commands :: "gl_command list"

definition submit :: "gl_command \<Rightarrow> Painter \<Rightarrow> Painter" where
  "submit c painter = painter\<lparr>commands := commands painter @ [c]\<rparr>"

subsection \<open>Painter::DrawImage\<close>

definition DrawImage_vertices ::
  "real \<Rightarrow> real \<Rightarrow> real \<Rightarrow> real \<Rightarrow> real \<Rightarrow> real \<Rightarrow> (error + real list)" where
  "DrawImage_vertices ww wh x y w h =
     (case (fdivf x ww, fdivf w ww, fdivf y wh, fdivf h wh) of
        (Some xq, Some wq, Some yq, Some hq) \<Rightarrow>
          (let left = xq;
               right = left + wq;
               top = yq;
               bottom = top + hq;
               left = left * 2 - 1;
               right = right * 2 - 1;
               top = 1 - top * 2;
               bottom = 1 - bottom * 2
           in Inr [left, top, 0, 0, 0,
                   right, top, 0, 1, 0,
                   right, bottom, 0, 1, 1,
                   left, bottom, 0, 0, 1])
      | _ \<Rightarrow> Inl NonFinite)"

definition DrawImage_indices :: "nat list" where
  "DrawImage_indices = [0, 1, 2, 2, 3, 0]"

definition DrawImage ::
  "Painter \<Rightarrow> real \<Rightarrow> real \<Rightarrow> real \<Rightarrow> real \<Rightarrow> Image \<Rightarrow> (error + Painter)" where
  "DrawImage painter x y w h img =
     (if data img = [] then Inr painter
      else case DrawImage_vertices (windowWidth painter) (windowHeight painter) x y w h of
             Inl e \<Rightarrow> Inl e
           | Inr vertices \<Rightarrow> Inr (submit (Triangles vertices DrawImage_indices img) painter))"

subsection \<open>Painter::DrawLine\<close>

definition DrawLine_vertices ::
  "real \<Rightarrow> real \<Rightarrow> real \<Rightarrow> real \<Rightarrow> real \<Rightarrow> real \<Rightarrow> byte \<Rightarrow> byte \<Rightarrow> byte
     \<Rightarrow> (error + real list)" where
  "DrawLine_vertices ww wh x1 y1 x2 y2 red green blue =
     (let redf = real (unat red) / 255;
          greenf = real (unat green) / 255;
          bluef = real (unat blue) / 255
      in case (fdivf x1 ww, fdivf y1 wh, fdivf x2 ww, fdivf y2 wh) of
           (Some a1, Some b1, Some a2, Some b2) \<Rightarrow>
             Inr [a1 * 2 - 1, 1 - b1 * 2, 0, redf, greenf, bluef,
                  a2 * 2 - 1, 1 - b2 * 2, 0, redf, greenf, bluef]
         | _ \<Rightarrow> Inl NonFinite)"

definition DrawLine_indices :: "nat list" where
  "DrawLine_indices = [0, 1]"

definition DrawLine ::
  "Painter \<Rightarrow> real \<Rightarrow> real \<Rightarrow> real \<Rightarrow> real \<Rightarrow> byte \<Rightarrow> byte \<Rightarrow> byte \<Rightarrow> (error + Painter)" where
  "DrawLine painter x1 y1 x2 y2 red green blue =
     (case DrawLine_vertices (windowWidth painter) (windowHeight painter) x1 y1 x2 y2
             red green blue of
        Inl e \<Rightarrow> Inl e
      | Inr vertices \<Rightarrow> Inr (submit (Lines vertices DrawLine_indices) painter))"

subsection \<open>Painter::ExtractImage\<close>

definition ExtractImage_vertices :: "Point list \<Rightarrow> real \<Rightarrow> real \<Rightarrow> real list" where
  "ExtractImage_vertices srcPoints srcPointScaleX srcPointScaleY =
     concat (map (\<lambda>y. concat (map (\<lambda>x.
       (let srcPointsIndex = (y * 4) + x
        in [- 1 + real x * 2 / 3,
            - 1 + real y * 2 / 3,
            0,
            px (srcPoints ! srcPointsIndex) * srcPointScaleX,
            py (srcPoints ! srcPointsIndex) * srcPointScaleY])) [0..<4])) [0..<4])"

definition ExtractImage_indices :: "nat list" where
  "ExtractImage_indices =
     [0, 1, 5,
      0, 5, 4,
      1, 2, 6,
      1, 6, 5,
      2, 3, 7,
      2, 7, 6,
      4, 5, 9,
      4, 9, 8,
      5, 6, 10,
      5, 10, 9,
      6, 7, 11,
      6, 11, 10,
      8, 9, 13,
      8, 13, 12,
      9, 10, 14,
      9, 14, 13,
      10, 11, 15,
      10, 15, 14]"

definition ExtractImage ::
  "(gl_command \<Rightarrow> byte list) \<Rightarrow> Painter \<Rightarrow> Image \<Rightarrow> Point list \<Rightarrow> real \<Rightarrow> real \<Rightarrow> Image
     \<Rightarrow> nat \<Rightarrow> nat \<Rightarrow> Painter \<times> Image" where
  "ExtractImage readPixels painter srcImage srcPoints srcPointScaleX srcPointScaleY dstImage
       dstImageWidth dstImageHeight =
     (if data srcImage = [] then (painter, dstImage)
      else if length srcPoints \<noteq> 16 then (painter, dstImage)
      else
        (let vertices = ExtractImage_vertices srcPoints srcPointScaleX srcPointScaleY;
             pass = Offscreen vertices ExtractImage_indices srcImage
                      dstImageWidth dstImageHeight
         in (submit pass painter,
             dstImage\<lparr>width := dstImageWidth, height := dstImageHeight,
                      data := readPixels pass\<rparr>)))"

text \<open>
  How the driver reads the two arrays of \<open>ExtractImage\<close>: the calls of
  \<open>glVertexAttribPointer\<close> give every vertex five floats, the position in the first
  three and the texture coordinate in the last two, and \<open>glDrawElements\<close> with
  \<open>GL_TRIANGLES\<close> takes the indices three at a time. \<open>signed_area2\<close> is twice the
  signed area of a triangle in the \<open>x\<close>-\<open>y\<close> plane: its sign is the winding.
\<close>

definition vertex_position :: "real list \<Rightarrow> nat \<Rightarrow> real \<times> real \<times> real" where
  "vertex_position vertices k = (vertices ! (5 * k), vertices ! (5 * k + 1), vertices ! (5 * k + 2))"

definition vertex_texcoord :: "real list \<Rightarrow> nat \<Rightarrow> real \<times> real" where
  "vertex_texcoord vertices k = (vertices ! (5 * k + 3), vertices ! (5 * k + 4))"

definition triangle :: "nat list \<Rightarrow> nat \<Rightarrow> nat \<times> nat \<times> nat" where
  "triangle indices t = (indices ! (3 * t), indices ! (3 * t + 1), indices ! (3 * t + 2))"

definition signed_area2 :: "real list \<Rightarrow> nat \<times> nat \<times> nat \<Rightarrow> real" where
  "signed_area2 vertices t =
     (case t of (a, b, c) \<Rightarrow>
        (case (vertex_position vertices a, vertex_position vertices b,
               vertex_position vertices c) of
           ((xa, ya, za), (xb, yb, zb), (xc, yc, zc)) \<Rightarrow>
             (xb - xa) * (yc - ya) - (xc - xa) * (yb - ya)))"

section \<open>Debug overlays\<close>

subsection \<open>Binary floating point\<close>

text \<open>
  \<open>DrawLines\<close> computes in \<open>float\<close>, compares with the \<open>double\<close> constants
  \<open>M_PI / 2\<close>, \<open>M_PI\<close> and \<open>3 * M_PI / 2\<close>, and calls \<open>cosf\<close>, \<open>sinf\<close> and
  \<open>fmodf\<close> of the C library.

  \<open>bit_length n\<close> is the number of binary digits of \<open>n\<close>, and \<open>ilogb v\<close> the exponent
  of \<open>v \<noteq> 0\<close>: the \<open>e\<close> with \<open>2 ^ e \<le> \<bar>v\<bar> < 2 ^ (e + 1)\<close>. \<open>round_to p emin v\<close> is the
  number with \<open>p\<close> significant bits nearest to \<open>v\<close>, ties to the even significand; the
  exponent is not taken below \<open>emin\<close>, under which the numbers of the format are
  subnormal and evenly spaced. \<open>fl64\<close> rounds to binary64 and \<open>fl32\<close> to binary32. A
  rounded value beyond the largest float is an infinity in IEEE arithmetic: \<open>fl32\<close> has
  no result there. (\<open>fl64\<close> is applied to one sum only, of a float and \<open>M_PI\<close>, whose
  size is that of a float.) A real number is a float, \<open>binary32\<close>, when rounding
  leaves it as it is.
\<close>

fun bit_length :: "nat \<Rightarrow> nat" where
  "bit_length n = (if n = 0 then 0 else Suc (bit_length (n div 2)))"

declare bit_length.simps [simp del]

definition round_nearest_even :: "real \<Rightarrow> int" where
  "round_nearest_even v =
     (let n = \<lfloor>v\<rfloor>; r = v - of_int n
      in if r < 1 / 2 then n else if 1 / 2 < r then n + 1 else if even n then n else n + 1)"

definition ilogb :: "real \<Rightarrow> int" where
  "ilogb v =
     (if 1 \<le> \<bar>v\<bar> then int (bit_length (nat \<lfloor>\<bar>v\<bar>\<rfloor>)) - 1
      else - int (bit_length (nat (\<lceil>1 / \<bar>v\<bar>\<rceil> - 1))))"

definition round_to :: "nat \<Rightarrow> int \<Rightarrow> real \<Rightarrow> real" where
  "round_to p emin v =
     (if v = 0 then 0
      else (let e = max (ilogb v) emin; u = 2 powi (e - int p + 1)
            in of_int (round_nearest_even (v / u)) * u))"

definition fl64 :: "real \<Rightarrow> real" where
  "fl64 v = round_to 53 (- 1022) v"

definition fl32 :: "real \<Rightarrow> real option" where
  "fl32 v = (let r = round_to 24 (- 126) v in if \<bar>r\<bar> < 2 ^ 128 then Some r else None)"

definition binary32 :: "real \<Rightarrow> bool" where
  "binary32 v \<longleftrightarrow> fl32 v = Some v"

text \<open>
  The value of a \<open>float\<close> expression is \<open>Some\<close> of a real number, or \<open>None\<close> when
  it is an infinity or a NaN. Every operation rounds its exact result to binary32 (what a
  build with \<open>FLT_EVAL_METHOD\<close> 0 and without contraction computes); an operation on
  \<open>None\<close> gives \<open>None\<close>, and so does a division by zero. A comparison with \<open>None\<close>
  has no result.
\<close>

definition fadd :: "real option \<Rightarrow> real option \<Rightarrow> real option" where
  "fadd a b = (case (a, b) of (Some u, Some v) \<Rightarrow> fl32 (u + v) | _ \<Rightarrow> None)"

definition fsub :: "real option \<Rightarrow> real option \<Rightarrow> real option" where
  "fsub a b = (case (a, b) of (Some u, Some v) \<Rightarrow> fl32 (u - v) | _ \<Rightarrow> None)"

definition fmul :: "real option \<Rightarrow> real option \<Rightarrow> real option" where
  "fmul a b = (case (a, b) of (Some u, Some v) \<Rightarrow> fl32 (u * v) | _ \<Rightarrow> None)"

definition fdiv :: "real option \<Rightarrow> real option \<Rightarrow> real option" where
  "fdiv a b =
     (case (a, b) of (Some u, Some v) \<Rightarrow> if v = 0 then None else fl32 (u / v) | _ \<Rightarrow> None)"

definition fneg :: "real option \<Rightarrow> real option" where
  "fneg a = (case a of Some u \<Rightarrow> Some (- u) | None \<Rightarrow> None)"

definition fle :: "real option \<Rightarrow> real option \<Rightarrow> bool option" where
  "fle a b = (case (a, b) of (Some u, Some v) \<Rightarrow> Some (u \<le> v) | _ \<Rightarrow> None)"

definition fgt :: "real option \<Rightarrow> real option \<Rightarrow> bool option" where
  "fgt a b = (case (a, b) of (Some u, Some v) \<Rightarrow> Some (u > v) | _ \<Rightarrow> None)"

text \<open>
  \<open>M_PI\<close> of \<open>math.h\<close> is 3.14159265358979323846, as a \<open>double\<close> the number
  \<open>884279719003555 / 2 ^ 48\<close>. Its half, its double and three halves of it are doubles
  as well, so \<open>M_PI / 2\<close>, \<open>2.0f * M_PI\<close> and \<open>3 * M_PI / 2\<close> of the source are
  computed without rounding.
\<close>

definition M_PI :: real where
  "M_PI = 884279719003555 / 2 ^ 48"

subsection \<open>DrawLines: clipping one polar line\<close>

text \<open>
  \<open>fmodf a b\<close> of the C library is \<open>a - n * b\<close> with \<open>n\<close> the quotient \<open>a / b\<close> cut
  towards zero, so the result has the sign of \<open>a\<close>. The remainder of two floats is a
  float: \<open>fmodf\<close> does not round.
\<close>

definition fmodf :: "real \<Rightarrow> real \<Rightarrow> real" where
  "fmodf a b = a - of_int (if 0 \<le> a / b then \<lfloor>a / b\<rfloor> else \<lceil>a / b\<rceil>) * b"

text \<open>
  Lines 53 to 61 of the loop body: \<open>rho\<close> is made non-negative. In
  \<open>fmodf(theta + M_PI, 2.0f * M_PI)\<close> the sum and the product are \<open>double\<close> (the float
  operand is promoted), and both are converted to \<open>float\<close> for \<open>fmodf\<close>: the sum is
  rounded twice, to binary64 and then to binary32, and the divisor is the float next to
  \<open>2 * M_PI\<close>. The product \<open>rho * -1.0f\<close> is exact. The result is the pair of the local
  variables \<open>(theta, rho)\<close>.
\<close>

definition canonicalize :: "Line \<Rightarrow> (real \<times> real) option" where
  "canonicalize line =
     (if rho line < 0 then
        (case (fl32 (fl64 (theta line + M_PI)), fl32 (2 * M_PI)) of
           (Some a, Some b) \<Rightarrow> Some (fmodf a b, rho line * (- 1))
         | _ \<Rightarrow> None)
      else Some (theta line, rho line))"

text \<open>The four arguments of a call of \<open>painter.DrawLine\<close>, all of them finite.\<close>

definition segment ::
  "real option \<Rightarrow> real option \<Rightarrow> real option \<Rightarrow> real option
     \<Rightarrow> (error + (real \<times> real \<times> real \<times> real) option)" where
  "segment x1 y1 x2 y2 =
     (case (x1, y1, x2, y2) of
        (Some a1, Some b1, Some a2, Some b2) \<Rightarrow> Inr (Some (a1, b1, a2, b2))
      | _ \<Rightarrow> Inl NonFinite)"

text \<open>
  The body of the loop of \<open>DrawLines\<close> for one line, up to its call of
  \<open>painter.DrawLine\<close>: \<open>Inr (Some (x1, y1, x2, y2))\<close> are the four coordinates passed to
  \<open>DrawLine\<close> (the placement \<open>(x, y)\<close> added, as in the source), \<open>Inr None\<close> is a
  \<open>continue\<close> without a call. The C library is outside the program: \<open>sinf\<close> and
  \<open>cosf\<close> are parameters of the model, the functions that give the library's result for
  a float. The tests on \<open>theta\<close> compare a float with a \<open>double\<close> constant, which is
  exact. A branch that draws with, or decides by, a value that is not finite ends in
  \<open>NonFinite\<close>; a value that is not used does no harm, as in the source. The parameters
  \<open>width\<close> and \<open>height\<close> of the source are \<open>w\<close> and \<open>h\<close> here (the names are the
  fields of \<open>Image\<close>).
\<close>

definition clip_line ::
  "(real \<Rightarrow> real) \<Rightarrow> (real \<Rightarrow> real) \<Rightarrow> real \<Rightarrow> real \<Rightarrow> real \<Rightarrow> real \<Rightarrow> Line
     \<Rightarrow> (error + (real \<times> real \<times> real \<times> real) option)" where
  "clip_line sinf cosf x y w h line =
     (case canonicalize line of
        None \<Rightarrow> Inl NonFinite
      | Some (theta', rho') \<Rightarrow>
          (let cosTheta = cosf theta';
               sinTheta = sinf theta';
               xPoint = fmul (Some cosTheta) (Some rho');
               yPoint = fmul (Some sinTheta) (Some rho')
           in if sinTheta = 0 then
                segment (fadd (Some x) xPoint) (Some y) (fadd (Some x) xPoint)
                  (fadd (Some y) (Some h))
              else
                (let m = fneg (fdiv (Some (cosf theta')) (Some (sinf theta')));
                     b = fmul (fneg xPoint) m;
                     leftVertical = fadd yPoint b;
                     topHorizontal = fdiv (fsub (fneg yPoint) b) m;
                     rightVertical = fadd (fadd yPoint b) (fmul (Some w) m);
                     bottomHorizontal = fdiv (fsub (fsub (Some h) yPoint) b) m
                 in if theta' > 0 \<and> theta' \<le> M_PI / 2 then
                      (case (fle leftVertical (Some h), fle topHorizontal (Some w)) of
                         (Some leftInside, Some topInside) \<Rightarrow>
                           (let x1 = (if leftInside then Some 0 else bottomHorizontal);
                                y1 = (if leftInside then leftVertical else Some h);
                                x2 = (if topInside then topHorizontal else Some w);
                                y2 = (if topInside then Some 0 else rightVertical)
                            in segment (fadd (Some x) x1) (fadd (Some y) y1)
                                 (fadd (Some x) x2) (fadd (Some y) y2))
                       | _ \<Rightarrow> Inl NonFinite)
                    else if theta' \<ge> M_PI / 2 \<and> theta' \<le> M_PI then
                      (case fgt leftVertical (Some h) of
                         None \<Rightarrow> Inl NonFinite
                       | Some leftOutside \<Rightarrow>
                           if leftOutside then Inr None
                           else
                             (case (fle bottomHorizontal (Some w), fle rightVertical (Some h)) of
                                (Some bottomInside, Some rightInside) \<Rightarrow>
                                  (let x1 = Some 0;
                                       y1 = leftVertical;
                                       x2 = (if bottomInside then bottomHorizontal else Some w);
                                       y2 = (if rightInside then rightVertical else Some h)
                                   in segment (fadd (Some x) x1) (fadd (Some y) y1)
                                        (fadd (Some x) x2) (fadd (Some y) y2))
                              | _ \<Rightarrow> Inl NonFinite))
                    else if theta' \<ge> 3 * M_PI / 2 then
                      (case fgt topHorizontal (Some w) of
                         None \<Rightarrow> Inl NonFinite
                       | Some topOutside \<Rightarrow>
                           if topOutside then Inr None
                           else
                             (case fle bottomHorizontal (Some w) of
                                Some bottomInside \<Rightarrow>
                                  (let x1 = topHorizontal;
                                       y1 = Some 0;
                                       x2 = (if bottomInside then bottomHorizontal else Some w);
                                       y2 = (if bottomInside then Some h else rightVertical)
                                   in segment (fadd (Some x) x1) (fadd (Some y) y1)
                                        (fadd (Some x) x2) (fadd (Some y) y2))
                              | None \<Rightarrow> Inl NonFinite))
                    else Inr None)))"

text \<open>What the clipper is for: a point inside the rectangle of width \<open>w\<close> and height
  \<open>h\<close>, and a point on the line \<open>x * cos theta + y * sin theta = rho\<close>.\<close>

definition inside :: "real \<Rightarrow> real \<Rightarrow> real \<times> real \<Rightarrow> bool" where
  "inside w h p \<longleftrightarrow> 0 \<le> fst p \<and> fst p \<le> w \<and> 0 \<le> snd p \<and> snd p \<le> h"

definition on_line :: "real \<Rightarrow> real \<Rightarrow> real \<times> real \<Rightarrow> bool" where
  "on_line t r p \<longleftrightarrow> fst p * cos t + snd p * sin t = r"

fun DrawLines ::
  "(real \<Rightarrow> real) \<Rightarrow> (real \<Rightarrow> real) \<Rightarrow> Painter \<Rightarrow> real \<Rightarrow> real \<Rightarrow> real \<Rightarrow> real \<Rightarrow> Line list
     \<Rightarrow> byte \<Rightarrow> byte \<Rightarrow> byte \<Rightarrow> (error + Painter)" where
  "DrawLines sinf cosf painter x y w h [] red green blue = Inr painter"
| "DrawLines sinf cosf painter x y w h (line # lines) red green blue =
     (case clip_line sinf cosf x y w h line of
        Inl e \<Rightarrow> Inl e
      | Inr None \<Rightarrow> DrawLines sinf cosf painter x y w h lines red green blue
      | Inr (Some (x1, y1, x2, y2)) \<Rightarrow>
          (case DrawLine painter x1 y1 x2 y2 red green blue of
             Inl e \<Rightarrow> Inl e
           | Inr painter' \<Rightarrow> DrawLines sinf cosf painter' x y w h lines red green blue))"

subsection \<open>DrawLineClusters\<close>

definition clusterColors :: "(byte \<times> byte \<times> byte) list" where
  "clusterColors =
     [(255, 0, 0),
      (128, 0, 255),
      (0, 255, 0),
      (255, 255, 0),
      (0, 255, 255),
      (128, 255, 255),
      (255, 0, 255)]"

text \<open>
  The loop \<open>for(unsigned int x = 0; x < lineClusters.size(); x++)\<close>, started at index
  \<open>x\<close> with the clusters from that index on. Its counter is named \<open>x\<close> in the
  source, as the placement parameter of \<open>DrawLineClusters\<close> is, and hides it: the
  first coordinate passed to \<open>DrawLines\<close> is the counter.
\<close>

fun DrawLineClusters_loop ::
  "(real \<Rightarrow> real) \<Rightarrow> (real \<Rightarrow> real) \<Rightarrow> Painter \<Rightarrow> real \<Rightarrow> real \<Rightarrow> real \<Rightarrow> nat
     \<Rightarrow> Line list list \<Rightarrow> (error + Painter)" where
  "DrawLineClusters_loop sinf cosf painter y w h x [] = Inr painter"
| "DrawLineClusters_loop sinf cosf painter y w h x (cluster # clusters) =
     (let clusterColor = clusterColors ! (x mod length clusterColors);
          red = fst clusterColor;
          green = fst (snd clusterColor);
          blue = snd (snd clusterColor)
      in case DrawLines sinf cosf painter (real x) y w h cluster red green blue of
           Inl e \<Rightarrow> Inl e
         | Inr painter' \<Rightarrow> DrawLineClusters_loop sinf cosf painter' y w h (Suc x) clusters)"

definition DrawLineClusters ::
  "(real \<Rightarrow> real) \<Rightarrow> (real \<Rightarrow> real) \<Rightarrow> Painter \<Rightarrow> real \<Rightarrow> real \<Rightarrow> real \<Rightarrow> real
     \<Rightarrow> Line list list \<Rightarrow> (error + Painter)" where
  "DrawLineClusters sinf cosf painter x y w h lineClusters =
     DrawLineClusters_loop sinf cosf painter y w h 0 lineClusters"

subsection \<open>Single precision\<close>

text \<open>
  \<open>DrawHoughTransform\<close> divides and multiplies in \<open>float\<close> and converts the product
  to \<open>unsigned char\<close>, which cuts the fraction off: one unit in the last place decides
  between 254 and 255. Its operands are non-negative, so a value is a fraction
  \<open>num / den\<close> of naturals, \<open>+inf\<close> or a NaN. \<open>f32_round p q\<close> is the binary32
  number nearest to \<open>p / q\<close>, ties to the even significand (the IEEE 754 default, and
  what a build with \<open>FLT_EVAL_METHOD\<close> 0 computes): \<open>f32_shift\<close> finds the scaling
  \<open>s\<close> with \<open>2 ^ 23 \<le> p / q * 2 ^ s < 2 ^ 24\<close> and the scaled quotient is rounded to a
  natural. The exponent range of binary32 is not modelled: the quotient \<open>255 / M\<close> of a
  16-bit \<open>M\<close> and its products with 16-bit counts are far inside it.
\<close>

datatype f32 = Fin nat nat | Inf | NaN

definition round_half_even :: "nat \<Rightarrow> nat \<Rightarrow> nat" where
  "round_half_even N D =
     (let n = N div D; r = N mod D
      in if D < 2 * r \<or> (2 * r = D \<and> odd n) then n + 1 else n)"

definition f32_shift :: "nat \<Rightarrow> nat \<Rightarrow> int" where
  "f32_shift p q =
     (let s0 = 24 + int (bit_length q) - int (bit_length p)
      in if 2 ^ 24 * (q * 2 ^ nat (- s0)) \<le> p * 2 ^ nat s0 then s0 - 1 else s0)"

definition f32_round :: "nat \<Rightarrow> nat \<Rightarrow> f32" where
  "f32_round p q =
     (if p = 0 then Fin 0 1
      else
        (let s = f32_shift p q;
             n = round_half_even (p * 2 ^ nat s) (q * 2 ^ nat (- s))
         in Fin (n * 2 ^ nat (- s)) (2 ^ nat s)))"

text \<open>\<open>a / b\<close> for two integers that binary32 holds exactly (here 255 and a 16-bit
  count).\<close>

definition f32_div :: "nat \<Rightarrow> nat \<Rightarrow> f32" where
  "f32_div a b = (if b = 0 then (if a = 0 then NaN else Inf) else f32_round a b)"

text \<open>\<open>c * v\<close> for an integer \<open>c\<close> that binary32 holds exactly and a float \<open>v\<close>.\<close>

fun f32_mul :: "nat \<Rightarrow> f32 \<Rightarrow> f32" where
  "f32_mul c (Fin n d) = f32_round (c * n) d"
| "f32_mul c Inf = (if c = 0 then NaN else Inf)"
| "f32_mul c NaN = NaN"

text \<open>The conversion to \<open>unsigned char\<close> cuts the fraction off; C++ leaves it undefined
  when the integer part does not fit.\<close>

fun f32_to_uchar :: "f32 \<Rightarrow> byte option" where
  "f32_to_uchar (Fin n d) = (if n div d < 256 then Some (of_nat (n div d)) else None)"
| "f32_to_uchar Inf = None"
| "f32_to_uchar NaN = None"

subsection \<open>DrawHoughTransform\<close>

text \<open>
  The accumulator keeps a 16-bit count in the first two bytes of each pixel;
  the source reads it through an \<open>unsigned short\<close> pointer, low byte first on the
  little-endian machines the program is built for. The cell number and the byte index
  \<open>x * 3\<close> are \<open>unsigned int\<close>. A read or write beyond the buffer is \<open>OutOfBounds\<close>.
\<close>

definition cell_count :: "Image \<Rightarrow> nat" where
  "cell_count htf = (width htf * height htf) mod 2 ^ 32"

definition read_cell :: "byte list \<Rightarrow> nat \<Rightarrow> (error + nat)" where
  "read_cell d x =
     (let index = (x * 3) mod 2 ^ 32
      in if index + 1 < length d then Inr (unat (d ! index) + 256 * unat (d ! (index + 1)))
         else Inl OutOfBounds)"

fun find_maximum :: "byte list \<Rightarrow> nat list \<Rightarrow> nat \<Rightarrow> (error + nat)" where
  "find_maximum d [] mx = Inr mx"
| "find_maximum d (x # xs) mx =
     (case read_cell d x of
        Inl e \<Rightarrow> Inl e
      | Inr v \<Rightarrow> find_maximum d xs (max mx v))"

fun rescale_cells :: "byte list \<Rightarrow> f32 \<Rightarrow> nat list \<Rightarrow> byte list \<Rightarrow> (error + byte list)" where
  "rescale_cells d multiplier [] out = Inr out"
| "rescale_cells d multiplier (x # xs) out =
     (let index = (x * 3) mod 2 ^ 32
      in case read_cell d x of
           Inl e \<Rightarrow> Inl e
         | Inr c \<Rightarrow>
             (case f32_to_uchar (f32_mul c multiplier) of
                None \<Rightarrow> Inl ConversionUndefined
              | Some v \<Rightarrow>
                  if index + 2 < length out
                  then rescale_cells d multiplier xs
                         (out[index + 0 := v, index + 1 := v, index + 2 := v])
                  else Inl OutOfBounds))"

definition maximumValue :: "Image \<Rightarrow> (error + nat)" where
  "maximumValue htf = find_maximum (data htf) [0..<cell_count htf] 0"

definition modifiedHTF :: "Image \<Rightarrow> (error + Image)" where
  "modifiedHTF htf =
     (case maximumValue htf of
        Inl e \<Rightarrow> Inl e
      | Inr mx \<Rightarrow>
          (let multiplier = f32_div 255 mx
           in case rescale_cells (data htf) multiplier [0..<cell_count htf] (data htf) of
                Inl e \<Rightarrow> Inl e
              | Inr d \<Rightarrow> Inr (htf\<lparr>data := d\<rparr>)))"

definition DrawHoughTransform ::
  "Painter \<Rightarrow> real \<Rightarrow> real \<Rightarrow> Image \<Rightarrow> real \<Rightarrow> (error + Painter)" where
  "DrawHoughTransform painter ww wh houghTransformFrame scale =
     (case modifiedHTF houghTransformFrame of
        Inl e \<Rightarrow> Inl e
      | Inr m \<Rightarrow>
          DrawImage painter
            (ww - real (width houghTransformFrame) * scale)
            (wh - real (height houghTransformFrame) * scale)
            (real (width houghTransformFrame) * scale)
            (real (height houghTransformFrame) * scale)
            m)"

text \<open>The invariant of an \<open>Image\<close> that holds data: three bytes per pixel, and a
  buffer that 32-bit indices reach.\<close>

definition wf_image :: "Image \<Rightarrow> bool" where
  "wf_image img \<longleftrightarrow>
     length (data img) = width img * height img * 3 \<and> width img * height img * 3 < 2 ^ 32"

text \<open>The count of cell \<open>i\<close> of a well-formed accumulator.\<close>

definition cell :: "Image \<Rightarrow> nat \<Rightarrow> nat" where
  "cell htf i = unat (data htf ! (3 * i)) + 256 * unat (data htf ! (3 * i + 1))"

section \<open>Malformed input to ExtractImage\<close>

text \<open>
  C1. For every destination image, a call of \<open>ExtractImage\<close> with an empty source image
  or with a number of source points other than 16 (15 or 17, say) returns without
  submitting anything to the driver, and the destination image is the one passed in:
  same width, same height, same bytes.
\<close>

theorem ExtractImage_malformed_noop:
  assumes "data srcImage = [] \<or> length srcPoints \<noteq> 16"
  shows "ExtractImage readPixels painter srcImage srcPoints sx sy dstImage dw dh
           = (painter, dstImage)"
  using assms by (auto simp: ExtractImage_def)

theorem ExtractImage_malformed_noop_witness:
  "ExtractImage (\<lambda>c. [0, 0, 0]) \<lparr>windowWidth = 1400, windowHeight = 600, commands = []\<rparr>
      \<lparr>width = 1, height = 1, data = [1, 2, 3]\<rparr>
      (replicate 15 \<lparr>px = 0, py = 0\<rparr>) 1 1
      \<lparr>width = 1, height = 1, data = [7, 8, 9]\<rparr> 600 600
    = (\<lparr>windowWidth = 1400, windowHeight = 600, commands = []\<rparr>,
       \<lparr>width = 1, height = 1, data = [7, 8, 9]\<rparr>)"
  using ExtractImage_malformed_noop
    [of "\<lparr>width = 1, height = 1, data = [1, 2, 3]\<rparr>" "replicate 15 \<lparr>px = 0, py = 0\<rparr>"
        "\<lambda>c. [0, 0, 0]" "\<lparr>windowWidth = 1400, windowHeight = 600, commands = []\<rparr>" 1 1
        "\<lparr>width = 1, height = 1, data = [7, 8, 9]\<rparr>" 600 600]
  by simp

section \<open>The mesh of ExtractImage\<close>

lemma upt_0_4: "[0..<4] = [0, 1, 2, 3]"
  by (simp add: upt_conv_Cons)

lemma ExtractImage_vertices_list:
  "ExtractImage_vertices ps sx sy =
     [- 1, - 1, 0, px (ps ! 0) * sx, py (ps ! 0) * sy,
      - 1 / 3, - 1, 0, px (ps ! 1) * sx, py (ps ! 1) * sy,
      1 / 3, - 1, 0, px (ps ! 2) * sx, py (ps ! 2) * sy,
      1, - 1, 0, px (ps ! 3) * sx, py (ps ! 3) * sy,
      - 1, - 1 / 3, 0, px (ps ! 4) * sx, py (ps ! 4) * sy,
      - 1 / 3, - 1 / 3, 0, px (ps ! 5) * sx, py (ps ! 5) * sy,
      1 / 3, - 1 / 3, 0, px (ps ! 6) * sx, py (ps ! 6) * sy,
      1, - 1 / 3, 0, px (ps ! 7) * sx, py (ps ! 7) * sy,
      - 1, 1 / 3, 0, px (ps ! 8) * sx, py (ps ! 8) * sy,
      - 1 / 3, 1 / 3, 0, px (ps ! 9) * sx, py (ps ! 9) * sy,
      1 / 3, 1 / 3, 0, px (ps ! 10) * sx, py (ps ! 10) * sy,
      1, 1 / 3, 0, px (ps ! 11) * sx, py (ps ! 11) * sy,
      - 1, 1, 0, px (ps ! 12) * sx, py (ps ! 12) * sy,
      - 1 / 3, 1, 0, px (ps ! 13) * sx, py (ps ! 13) * sy,
      1 / 3, 1, 0, px (ps ! 14) * sx, py (ps ! 14) * sy,
      1, 1, 0, px (ps ! 15) * sx, py (ps ! 15) * sy]"
  by (simp add: ExtractImage_vertices_def upt_0_4 Let_def numeral_2_eq_2 [symmetric])

lemma less_4_cases: "(n::nat) < 4 \<longleftrightarrow> n = 0 \<or> n = 1 \<or> n = 2 \<or> n = 3"
  by auto

lemma less_3_cases: "(n::nat) < 3 \<longleftrightarrow> n = 0 \<or> n = 1 \<or> n = 2"
  by auto

lemma vertex_grid:
  assumes "x < 4" and "y < 4"
  shows "vertex_position (ExtractImage_vertices ps sx sy) (4 * y + x)
           = (- 1 + real x * (2 / 3), - 1 + real y * (2 / 3), 0)"
    and "vertex_texcoord (ExtractImage_vertices ps sx sy) (4 * y + x)
           = (px (ps ! (4 * y + x)) * sx, py (ps ! (4 * y + x)) * sy)"
  using assms
  by (auto simp: less_4_cases ExtractImage_vertices_list vertex_position_def vertex_texcoord_def
        numeral_2_eq_2 [symmetric])

lemma cell_triangles:
  assumes "cx < 3" and "cy < 3"
  shows "triangle ExtractImage_indices (2 * (3 * cy + cx))
           = (4 * cy + cx, 4 * cy + cx + 1, 4 * cy + cx + 5)"
    and "triangle ExtractImage_indices (2 * (3 * cy + cx) + 1)
           = (4 * cy + cx, 4 * cy + cx + 5, 4 * cy + cx + 4)"
  using assms
  by (auto simp: less_3_cases ExtractImage_indices_def triangle_def)

lemma cell_winding:
  assumes "cx < 3" and "cy < 3"
  shows "signed_area2 (ExtractImage_vertices ps sx sy)
           (triangle ExtractImage_indices (2 * (3 * cy + cx))) = 4 / 9"
    and "signed_area2 (ExtractImage_vertices ps sx sy)
           (triangle ExtractImage_indices (2 * (3 * cy + cx) + 1)) = 4 / 9"
  using assms
  by (auto simp: less_3_cases ExtractImage_indices_def triangle_def signed_area2_def
        ExtractImage_vertices_list vertex_position_def)

text \<open>
  C5. A valid call of \<open>ExtractImage\<close> (source image not empty, 16 source points)
  submits one off-screen pass and reads its pixels into the destination. The vertex
  array of the pass has 16 vertices of five floats. Vertex \<open>4 * y + x\<close>
  (\<open>x, y < 4\<close>) is at \<open>(- 1 + x * 2 / 3, - 1 + y * 2 / 3, 0)\<close>, so the positions are the
  grid of \<open>- 1, - 1 / 3, 1 / 3, 1\<close> in both directions, and its texture coordinate is
  source point \<open>4 * y + x\<close> scaled by \<open>(srcPointScaleX, srcPointScaleY)\<close>. The index array
  has 18 triangles: the cell \<open>(cx, cy)\<close> of the 3 by 3 cells, with corner vertex
  \<open>v = 4 * cy + cx\<close>, has triangles \<open>(v, v + 1, v + 5)\<close> and \<open>(v, v + 5, v + 4)\<close>, and
  all of them wind the same way (twice the signed area is \<open>4 / 9\<close>).
\<close>

theorem ExtractImage_mesh:
  assumes "data srcImage \<noteq> []" and "length srcPoints = 16"
    and "x < 4" and "y < 4" and "cx < 3" and "cy < 3"
  shows "ExtractImage readPixels painter srcImage srcPoints sx sy dstImage dw dh =
           (submit (Offscreen (ExtractImage_vertices srcPoints sx sy) ExtractImage_indices
                      srcImage dw dh) painter,
            dstImage\<lparr>width := dw, height := dh,
              data := readPixels (Offscreen (ExtractImage_vertices srcPoints sx sy)
                        ExtractImage_indices srcImage dw dh)\<rparr>)
         \<and> length (ExtractImage_vertices srcPoints sx sy) = 5 * 16
         \<and> vertex_position (ExtractImage_vertices srcPoints sx sy) (4 * y + x)
             = (- 1 + real x * (2 / 3), - 1 + real y * (2 / 3), 0)
         \<and> vertex_texcoord (ExtractImage_vertices srcPoints sx sy) (4 * y + x)
             = (px (srcPoints ! (4 * y + x)) * sx, py (srcPoints ! (4 * y + x)) * sy)
         \<and> length ExtractImage_indices = 3 * 18
         \<and> triangle ExtractImage_indices (2 * (3 * cy + cx))
             = (4 * cy + cx, 4 * cy + cx + 1, 4 * cy + cx + 5)
         \<and> triangle ExtractImage_indices (2 * (3 * cy + cx) + 1)
             = (4 * cy + cx, 4 * cy + cx + 5, 4 * cy + cx + 4)
         \<and> signed_area2 (ExtractImage_vertices srcPoints sx sy)
               (triangle ExtractImage_indices (2 * (3 * cy + cx))) = 4 / 9
         \<and> signed_area2 (ExtractImage_vertices srcPoints sx sy)
               (triangle ExtractImage_indices (2 * (3 * cy + cx) + 1)) = 4 / 9"
proof -
  have call: "ExtractImage readPixels painter srcImage srcPoints sx sy dstImage dw dh =
           (submit (Offscreen (ExtractImage_vertices srcPoints sx sy) ExtractImage_indices
                      srcImage dw dh) painter,
            dstImage\<lparr>width := dw, height := dh,
              data := readPixels (Offscreen (ExtractImage_vertices srcPoints sx sy)
                        ExtractImage_indices srcImage dw dh)\<rparr>)"
    using assms(1,2) by (simp add: ExtractImage_def Let_def)
  have lv: "length (ExtractImage_vertices srcPoints sx sy) = 5 * 16"
    by (simp add: ExtractImage_vertices_list)
  have li: "length ExtractImage_indices = 3 * 18"
    by (simp add: ExtractImage_indices_def)
  show ?thesis
    using call lv li vertex_grid [OF assms(3,4)] cell_triangles [OF assms(5,6)]
      cell_winding [OF assms(5,6)]
    by blast
qed

theorem ExtractImage_mesh_witness:
  "fst (ExtractImage (\<lambda>c. [1, 2, 3]) \<lparr>windowWidth = 1400, windowHeight = 600, commands = []\<rparr>
         \<lparr>width = 1, height = 1, data = [9, 9, 9]\<rparr>
         (map (\<lambda>k. \<lparr>px = real k, py = real k * 10\<rparr>) [0..<16]) (1 / 100) (1 / 1000)
         \<lparr>width = 0, height = 0, data = []\<rparr> 1 1)
     = \<lparr>windowWidth = 1400, windowHeight = 600,
        commands = [Offscreen
          (ExtractImage_vertices (map (\<lambda>k. \<lparr>px = real k, py = real k * 10\<rparr>) [0..<16])
             (1 / 100) (1 / 1000))
          ExtractImage_indices \<lparr>width = 1, height = 1, data = [9, 9, 9]\<rparr> 1 1]\<rparr>
   \<and> snd (ExtractImage (\<lambda>c. [1, 2, 3]) \<lparr>windowWidth = 1400, windowHeight = 600, commands = []\<rparr>
         \<lparr>width = 1, height = 1, data = [9, 9, 9]\<rparr>
         (map (\<lambda>k. \<lparr>px = real k, py = real k * 10\<rparr>) [0..<16]) (1 / 100) (1 / 1000)
         \<lparr>width = 0, height = 0, data = []\<rparr> 1 1)
     = \<lparr>width = 1, height = 1, data = [1, 2, 3]\<rparr>
   \<and> vertex_position
        (ExtractImage_vertices (map (\<lambda>k. \<lparr>px = real k, py = real k * 10\<rparr>) [0..<16])
           (1 / 100) (1 / 1000)) 9
     = (- 1 / 3, 1 / 3, 0)
   \<and> vertex_texcoord
        (ExtractImage_vertices (map (\<lambda>k. \<lparr>px = real k, py = real k * 10\<rparr>) [0..<16])
           (1 / 100) (1 / 1000)) 9
     = (9 / 100, 9 / 100)
   \<and> triangle ExtractImage_indices 10 = (6, 7, 11)
   \<and> triangle ExtractImage_indices 11 = (6, 11, 10)"
  using ExtractImage_mesh [of "\<lparr>width = 1, height = 1, data = [9, 9, 9]\<rparr>"
      "map (\<lambda>k. \<lparr>px = real k, py = real k * 10\<rparr>) [0..<16]" 1 2 2 1
      "\<lambda>c. [1, 2, 3]" "\<lparr>windowWidth = 1400, windowHeight = 600, commands = []\<rparr>"
      "1 / 100" "1 / 1000" "\<lparr>width = 0, height = 0, data = []\<rparr>" 1 1]
  by (simp add: submit_def)

section \<open>Pixel coordinates to normalised device coordinates\<close>

text \<open>
  C8. For every window size (both dimensions non-zero: the conversion divides by them)
  \<open>DrawLine\<close> and \<open>DrawImage\<close> convert every pixel they are given by
  \<open>ndc_x = 2 * (px / windowWidth) - 1\<close>, \<open>ndc_y = 1 - 2 * (py / windowHeight)\<close>: the
  two ends \<open>(x1, y1)\<close> and \<open>(x2, y2)\<close> of a line, and the four corners \<open>(x, y)\<close>,
  \<open>(x + w, y)\<close>, \<open>(x + w, y + h)\<close>, \<open>(x, y + h)\<close> of an image. The conversion sends
  the pixel \<open>(0, 0)\<close> to \<open>(- 1, 1)\<close> and the pixel \<open>(windowWidth, windowHeight)\<close> to
  \<open>(1, - 1)\<close>, exactly: a line from corner to corner has these two vertices, in the
  order of its ends, and an image that fills the window has the four corners of the
  device square.
\<close>

theorem corner_mapping:
  assumes "ww \<noteq> 0" and "wh \<noteq> 0"
  shows "DrawLine_vertices ww wh x1 y1 x2 y2 red green blue =
           Inr [2 * (x1 / ww) - 1, 1 - 2 * (y1 / wh), 0,
                real (unat red) / 255, real (unat green) / 255, real (unat blue) / 255,
                2 * (x2 / ww) - 1, 1 - 2 * (y2 / wh), 0,
                real (unat red) / 255, real (unat green) / 255, real (unat blue) / 255]
         \<and> DrawImage_vertices ww wh x y w h =
           Inr [2 * (x / ww) - 1, 1 - 2 * (y / wh), 0, 0, 0,
                2 * ((x + w) / ww) - 1, 1 - 2 * (y / wh), 0, 1, 0,
                2 * ((x + w) / ww) - 1, 1 - 2 * ((y + h) / wh), 0, 1, 1,
                2 * (x / ww) - 1, 1 - 2 * ((y + h) / wh), 0, 0, 1]
         \<and> DrawLine_vertices ww wh 0 0 ww wh red green blue =
           Inr [- 1, 1, 0, real (unat red) / 255, real (unat green) / 255, real (unat blue) / 255,
                1, - 1, 0, real (unat red) / 255, real (unat green) / 255, real (unat blue) / 255]
         \<and> DrawLine_vertices ww wh ww wh 0 0 red green blue =
           Inr [1, - 1, 0, real (unat red) / 255, real (unat green) / 255, real (unat blue) / 255,
                - 1, 1, 0, real (unat red) / 255, real (unat green) / 255, real (unat blue) / 255]
         \<and> DrawImage_vertices ww wh 0 0 ww wh =
           Inr [- 1, 1, 0, 0, 0,
                1, 1, 0, 1, 0,
                1, - 1, 0, 1, 1,
                - 1, - 1, 0, 0, 1]"
  using assms
  by (simp add: DrawLine_vertices_def DrawImage_vertices_def fdivf_def Let_def
        add_divide_distrib mult.commute)

theorem corner_mapping_witness:
  "DrawLine_vertices 1400 600 350 150 1050 600 255 0 0 =
           Inr [- (1 / 2), 1 / 2, 0, 1, 0, 0,
                1 / 2, - 1, 0, 1, 0, 0]
         \<and> DrawImage_vertices 1400 600 350 150 700 450 =
           Inr [- (1 / 2), 1 / 2, 0, 0, 0,
                1 / 2, 1 / 2, 0, 1, 0,
                1 / 2, - 1, 0, 1, 1,
                - (1 / 2), - 1, 0, 0, 1]
         \<and> DrawLine_vertices 1400 600 0 0 1400 600 255 0 0 =
           Inr [- 1, 1, 0, 1, 0, 0,
                1, - 1, 0, 1, 0, 0]
         \<and> DrawLine_vertices 1400 600 1400 600 0 0 255 0 0 =
           Inr [1, - 1, 0, 1, 0, 0,
                - 1, 1, 0, 1, 0, 0]
         \<and> DrawImage_vertices 1400 600 0 0 1400 600 =
           Inr [- 1, 1, 0, 0, 0,
                1, 1, 0, 1, 0,
                1, - 1, 0, 1, 1,
                - 1, - 1, 0, 0, 1]"
  using corner_mapping [of 1400 600 350 150 1050 600 255 0 0 350 150 700 450] by simp

section \<open>Binary floating point: exponent, rounding error and grid\<close>

text \<open>
  \<open>bit_length\<close> brackets a positive number between two powers of two, so \<open>ilogb\<close> is
  the exponent: \<open>2 ^ ilogb v \<le> \<bar>v\<bar> < 2 ^ (ilogb v + 1)\<close>, and it is the only integer
  with these bounds.
\<close>

lemma bit_length_bounds:
  assumes "0 < n"
  shows "2 ^ (bit_length n - 1) \<le> n \<and> n < 2 ^ bit_length n"
  using assms
proof (induction n rule: bit_length.induct)
  case (1 n)
  have bl: "bit_length n = Suc (bit_length (n div 2))"
    using "1.prems" by (subst bit_length.simps) simp
  show ?case
  proof (cases "n div 2 = 0")
    case True
    then have "bit_length n = Suc 0"
      by (simp add: bl bit_length.simps [of 0])
    moreover have "n = 1" using True "1.prems" by (auto simp: div_eq_0_iff)
    ultimately show ?thesis by simp
  next
    case False
    then have h: "0 < n div 2" by simp
    have ih: "2 ^ (bit_length (n div 2) - 1) \<le> n div 2 \<and> n div 2 < 2 ^ bit_length (n div 2)"
      using "1.IH" "1.prems" h by simp
    have "0 < bit_length (n div 2)" using h by (subst bit_length.simps) simp
    then obtain k where k: "bit_length (n div 2) = Suc k"
      by (cases "bit_length (n div 2)") auto
    show ?thesis using ih by (simp add: bl k) linarith
  qed
qed

lemma bit_length_real:
  assumes "0 < n"
  shows "2 powi (int (bit_length n) - 1) \<le> real n \<and> real n < 2 powi int (bit_length n)"
proof -
  have b: "2 ^ (bit_length n - 1) \<le> n \<and> n < 2 ^ bit_length n"
    using assms by (rule bit_length_bounds)
  have pos: "0 < bit_length n" using assms by (subst bit_length.simps) simp
  then have e: "int (bit_length n) - 1 = int (bit_length n - 1)" by simp
  have "real (2 ^ (bit_length n - 1)) \<le> real n" using b by (simp only: of_nat_le_iff)
  moreover have "real n < real (2 ^ bit_length n)" using b by (simp only: of_nat_less_iff)
  ultimately show ?thesis by (simp add: e)
qed

lemma ilogb_bounds:
  assumes "v \<noteq> 0"
  shows "2 powi (ilogb v) \<le> \<bar>v\<bar> \<and> \<bar>v\<bar> < 2 powi (ilogb v + 1)"
proof (cases "1 \<le> \<bar>v\<bar>")
  case True
  define n where "n = nat \<lfloor>\<bar>v\<bar>\<rfloor>"
  have f: "1 \<le> \<lfloor>\<bar>v\<bar>\<rfloor>" using True by linarith
  then have n: "0 < n" "real n = of_int \<lfloor>\<bar>v\<bar>\<rfloor>" by (simp_all add: n_def)
  have i: "ilogb v = int (bit_length n) - 1" using True by (simp add: ilogb_def n_def)
  have b: "2 powi (int (bit_length n) - 1) \<le> real n \<and> real n < 2 powi int (bit_length n)"
    using n(1) by (rule bit_length_real)
  have b2: "n < 2 ^ bit_length n" using bit_length_bounds [OF n(1)] by simp
  then have "n + 1 \<le> 2 ^ bit_length n" by simp
  then have "real (n + 1) \<le> real (2 ^ bit_length n)" by (simp only: of_nat_le_iff)
  then have up: "real n + 1 \<le> 2 powi int (bit_length n)" by simp
  have "real n \<le> \<bar>v\<bar>" "\<bar>v\<bar> < real n + 1" unfolding n(2) by linarith+
  then show ?thesis using b up unfolding i by simp
next
  case False
  define u where "u = 1 / \<bar>v\<bar>"
  have a: "0 < \<bar>v\<bar>" "\<bar>v\<bar> < 1" using assms False by simp_all
  then have u1: "1 < u" by (simp add: u_def)
  define k where "k = nat (\<lceil>u\<rceil> - 1)"
  have c: "2 \<le> \<lceil>u\<rceil>" using u1 by linarith
  then have k: "0 < k" "real k = of_int \<lceil>u\<rceil> - 1" by (simp_all add: k_def)
  have i: "ilogb v = - int (bit_length k)" using False by (simp add: ilogb_def k_def u_def)
  have b: "2 powi (int (bit_length k) - 1) \<le> real k \<and> real k < 2 powi int (bit_length k)"
    using k(1) by (rule bit_length_real)
  have b2: "k < 2 ^ bit_length k" using bit_length_bounds [OF k(1)] by simp
  then have "k + 1 \<le> 2 ^ bit_length k" by simp
  then have "real (k + 1) \<le> real (2 ^ bit_length k)" by (simp only: of_nat_le_iff)
  then have up: "real k + 1 \<le> 2 powi int (bit_length k)" by simp
  have ku: "real k < u" "u \<le> real k + 1" unfolding k(2) by linarith+
  have lo: "2 powi (int (bit_length k) - 1) < u" using b ku by linarith
  have hi: "u \<le> 2 powi int (bit_length k)" using up ku by linarith
  have p1: "(0::real) < 2 powi int (bit_length k)" by simp
  have p2: "(0::real) < 2 powi (int (bit_length k) - 1)" by simp
  have v: "\<bar>v\<bar> = 1 / u" using a by (simp add: u_def)
  have "inverse (2 powi int (bit_length k)) \<le> inverse u"
    using hi u1 by (intro le_imp_inverse_le) auto
  then have r1: "2 powi (- int (bit_length k)) \<le> \<bar>v\<bar>"
    unfolding v by (simp add: power_int_minus inverse_eq_divide)
  have "inverse u < inverse (2 powi (int (bit_length k) - 1))"
    using lo p2 by (rule less_imp_inverse_less)
  moreover have "inverse ((2::real) powi (int (bit_length k) - 1)) = 2 powi (- int (bit_length k) + 1)"
    by (simp flip: power_int_minus)
  ultimately have r2: "\<bar>v\<bar> < 2 powi (- int (bit_length k) + 1)"
    unfolding v by (simp add: inverse_eq_divide)
  show ?thesis unfolding i using r1 r2 by simp
qed

lemma ilogb_eq:
  assumes "2 powi e \<le> \<bar>v\<bar>" and "\<bar>v\<bar> < 2 powi (e + 1)"
  shows "ilogb v = e"
proof -
  have "(0::real) < 2 powi e" by simp
  then have "0 < \<bar>v\<bar>" using assms(1) by linarith
  then have nz: "v \<noteq> 0" by auto
  have b: "2 powi (ilogb v) \<le> \<bar>v\<bar>" "\<bar>v\<bar> < 2 powi (ilogb v + 1)"
    using ilogb_bounds [OF nz] by simp_all
  have "(2::real) powi e < 2 powi (ilogb v + 1)" using assms(1) b(2) by linarith
  then have 1: "e < ilogb v + 1"
    using power_int_increasing [of "ilogb v + 1" e "2::real"] by (cases "e < ilogb v + 1") auto
  have "(2::real) powi (ilogb v) < 2 powi (e + 1)" using assms(2) b(1) by linarith
  then have 2: "ilogb v < e + 1"
    using power_int_increasing [of "e + 1" "ilogb v" "2::real"] by (cases "ilogb v < e + 1") auto
  show ?thesis using 1 2 by simp
qed

text \<open>
  Rounding to nearest moves a number by at most half a unit in the last place. A float
  is a multiple of the unit in the last place of its binade, and a finite one is at most
  \<open>2 ^ 128 - 2 ^ 104\<close>.
\<close>

lemma round_nearest_even_error: "\<bar>of_int (round_nearest_even y) - y\<bar> \<le> 1 / 2"
  unfolding round_nearest_even_def Let_def by (auto; linarith)

lemma round_to_error:
  assumes "v \<noteq> 0"
  shows "\<bar>round_to p emin v - v\<bar> \<le> 2 powi (max (ilogb v) emin - int p + 1) / 2"
proof -
  define u :: real where "u = 2 powi (max (ilogb v) emin - int p + 1)"
  have u: "0 < u" by (simp add: u_def)
  have r: "round_to p emin v = of_int (round_nearest_even (v / u)) * u"
    using assms by (simp add: round_to_def Let_def u_def)
  have "\<bar>of_int (round_nearest_even (v / u)) - v / u\<bar> * u \<le> 1 / 2 * u"
    using round_nearest_even_error [of "v / u"] u by (intro mult_right_mono) auto
  moreover have "\<bar>of_int (round_nearest_even (v / u)) - v / u\<bar> * u
      = \<bar>of_int (round_nearest_even (v / u)) * u - v\<bar>"
  proof -
    have "\<bar>of_int (round_nearest_even (v / u)) - v / u\<bar> * u
          = \<bar>(of_int (round_nearest_even (v / u)) - v / u) * u\<bar>"
      using u by (simp add: abs_mult)
    also have "(of_int (round_nearest_even (v / u)) - v / u) * u
          = of_int (round_nearest_even (v / u)) * u - v"
      using u by (simp add: algebra_simps)
    finally show ?thesis .
  qed
  ultimately show ?thesis unfolding r u_def by simp
qed

lemma binary32_grid:
  assumes "binary32 v" and "2 powi e \<le> \<bar>v\<bar>" and "\<bar>v\<bar> < 2 powi (e + 1)" and "- 126 \<le> e"
  shows "\<exists>n::int. v = of_int n * 2 powi (e - 23)"
proof -
  have "(0::real) < 2 powi e" by simp
  then have "0 < \<bar>v\<bar>" using assms(2) by linarith
  then have nz: "v \<noteq> 0" by auto
  have i: "ilogb v = e" using assms(2,3) by (rule ilogb_eq)
  have "round_to 24 (- 126) v = v"
    using assms(1) by (simp add: binary32_def fl32_def Let_def split: if_splits)
  then have "v = of_int (round_nearest_even (v / 2 powi (e - 23))) * 2 powi (e - 23)"
    using nz assms(4) by (simp add: round_to_def Let_def i max_def)
  then show ?thesis by blast
qed

lemma round_to_error_below:
  assumes "\<bar>v\<bar> < 2 powi k" and "emin < k"
  shows "\<bar>round_to p emin v - v\<bar> \<le> 2 powi (k - int p) / 2"
proof (cases "v = 0")
  case True
  then show ?thesis by (simp add: round_to_def)
next
  case False
  have b: "2 powi (ilogb v) \<le> \<bar>v\<bar>" using ilogb_bounds [OF False] by simp
  then have "(2::real) powi (ilogb v) < 2 powi k" using assms(1) by linarith
  then have "ilogb v < k"
    using power_int_increasing [of k "ilogb v" "2::real"] by (cases "ilogb v < k") auto
  then have "max (ilogb v) emin - int p + 1 \<le> k - int p" using assms(2) by simp
  then have "(2::real) powi (max (ilogb v) emin - int p + 1) \<le> 2 powi (k - int p)"
    by (intro power_int_increasing) auto
  then show ?thesis using round_to_error [OF False, of p emin] by linarith
qed

lemma binary32_bound:
  assumes "binary32 v"
  shows "\<bar>v\<bar> \<le> 2 ^ 128 - 2 ^ 104"
proof (cases "\<bar>v\<bar> < 2 ^ 127")
  case True
  then show ?thesis by simp
next
  case False
  have r: "round_to 24 (- 126) v = v" "\<bar>round_to 24 (- 126) v\<bar> < 2 ^ 128"
    using assms by (simp_all add: binary32_def fl32_def Let_def split: if_splits)
  have lt: "\<bar>v\<bar> < 2 ^ 128" using r by simp
  have "\<exists>n::int. v = of_int n * 2 powi (127 - 23)"
    using assms False lt by (intro binary32_grid) auto
  then obtain n :: int where n: "v = of_int n * 2 ^ 104" by auto
  have "\<bar>of_int n :: real\<bar> * 2 ^ 104 < 2 ^ 24 * 2 ^ 104"
    using lt unfolding n by (simp add: abs_mult)
  then have "\<bar>of_int n :: real\<bar> < 2 ^ 24" by simp
  then have "real_of_int \<bar>n\<bar> < real_of_int (2 ^ 24)" by simp
  then have "\<bar>n\<bar> < 2 ^ 24" by (simp only: of_int_less_iff)
  then have "\<bar>n\<bar> \<le> 2 ^ 24 - 1" by simp
  then have "real_of_int \<bar>n\<bar> \<le> real_of_int (2 ^ 24 - 1)" by (simp only: of_int_le_iff)
  then have "\<bar>of_int n :: real\<bar> \<le> 2 ^ 24 - 1" by simp
  then have "\<bar>of_int n :: real\<bar> * 2 ^ 104 \<le> (2 ^ 24 - 1) * 2 ^ 104"
    by (intro mult_right_mono) auto
  then show ?thesis unfolding n by (simp add: abs_mult)
qed

text \<open>Evaluation of the rounding on numerals, and of the float operations.\<close>

lemma bit_length_numeral:
  "bit_length 0 = 0"
  "bit_length (Suc 0) = Suc 0"
  "bit_length (numeral k) = Suc (bit_length (numeral k div 2))"
  by (subst bit_length.simps, simp add: bit_length.simps [of 0])+

lemmas fl_eval = fl32_def fl64_def round_to_def ilogb_def round_nearest_even_def
  bit_length_numeral Let_def

lemmas fop_eval = fadd_def fsub_def fmul_def fdiv_def fneg_def fle_def fgt_def segment_def

subsection \<open>The floats next to \<open>pi\<close>\<close>

text \<open>
  \<open>pi\<close> lies between \<open>3373259420 / 2 ^ 30\<close> and \<open>3373259430 / 2 ^ 30\<close>
  (3.1415926479 and 3.1415926572): the sine of a sixth of the lower bound is below
  \<open>1 / 2\<close> and that of a sixth of the upper bound is above, by the Maclaurin polynomial of
  degree 11 and its error bound.
\<close>

lemma sin_poly_12:
  "(\<Sum>m<12. sin_coeff m * x ^ m) =
     x - x^3 / 6 + x^5 / 120 - x^7 / 5040 + x^9 / 362880 - x^11 / 39916800" for x :: real
  by (simp add: sin_coeff_def lessThan_nat_numeral lessThan_Suc fact_numeral)

lemma pi_lower: "3373259420 / 2 ^ 30 < pi"
proof -
  define a :: real where "a = 3373259420 / (6 * 2 ^ 30)"
  have b: "\<bar>sin a - (\<Sum>m<12. sin_coeff m * a ^ m)\<bar> \<le> inverse (fact 12) * \<bar>a\<bar> ^ 12"
    by (rule Maclaurin_sin_bound)
  have e: "(\<Sum>m<12. sin_coeff m * a ^ m) + inverse (fact 12) * \<bar>a\<bar> ^ 12 < 1 / 2"
    unfolding sin_poly_12 unfolding a_def by (simp add: fact_numeral power_divide)
  have less: "sin a < sin (pi / 6)" unfolding sin_30 using b e by linarith
  have "a \<le> 1" unfolding a_def by simp
  then have "a \<le> pi / 2" using pi_ge_two by linarith
  then have "\<not> pi / 6 \<le> a" using sin_monotone_2pi_le[of "pi / 6" a] less by force
  then show ?thesis unfolding a_def by simp
qed

lemma pi_upper: "pi < 3373259430 / 2 ^ 30"
proof -
  define a :: real where "a = 3373259430 / (6 * 2 ^ 30)"
  have b: "\<bar>sin a - (\<Sum>m<12. sin_coeff m * a ^ m)\<bar> \<le> inverse (fact 12) * \<bar>a\<bar> ^ 12"
    by (rule Maclaurin_sin_bound)
  have e: "1 / 2 < (\<Sum>m<12. sin_coeff m * a ^ m) - inverse (fact 12) * \<bar>a\<bar> ^ 12"
    unfolding sin_poly_12 unfolding a_def by (simp add: fact_numeral power_divide)
  have less: "sin (pi / 6) < sin a" unfolding sin_30 using b e by linarith
  have "0 \<le> a" unfolding a_def by simp
  then have "- (pi / 2) \<le> a" using pi_ge_two by linarith
  then have "\<not> a \<le> pi / 6" using sin_monotone_2pi_le[of a "pi / 6"] less by force
  then show ?thesis unfolding a_def by simp
qed

text \<open>
  Between 2 and 4 the floats are the multiples of \<open>2 ^ - 22\<close>, between 4 and 8 those of
  \<open>2 ^ - 21\<close>. So \<open>pi\<close> is not a float: the floats from \<open>pi\<close> on begin with
  \<open>13176795 / 2 ^ 22\<close> (3.14159274), those below \<open>pi\<close> end with
  \<open>13176794 / 2 ^ 22\<close> (3.14159250), and those below \<open>3 * pi / 2\<close> end with
  \<open>9882595 / 2 ^ 21\<close> (4.71238852).
\<close>

lemma binary32_above_pi:
  assumes "binary32 v" and "pi \<le> v" and "v < 4"
  shows "13176795 / 2 ^ 22 \<le> v"
proof -
  have v2: "2 \<le> v" using assms(2) pi_ge_two by linarith
  have "\<exists>n::int. v = of_int n * 2 powi (1 - 23)"
    using assms(1,3) v2 by (intro binary32_grid) auto
  then obtain n :: int where n: "v = of_int n / 2 ^ 22"
    by (auto simp: power_int_minus_divide)
  have "3373259420 / 2 ^ 30 < v" using pi_lower assms(2) by linarith
  then have "(13176794::real) < of_int n" unfolding n by (simp add: field_simps)
  then have "13176794 < n" by linarith
  then have "13176795 \<le> n" by simp
  then have "(13176795::real) \<le> of_int n" by linarith
  then show ?thesis unfolding n by (simp add: field_simps)
qed

lemma binary32_below_pi:
  assumes "binary32 v" and "v < pi"
  shows "v \<le> 13176794 / 2 ^ 22"
proof (cases "v < 2")
  case True
  then show ?thesis by simp
next
  case False
  then have v2: "2 \<le> v" by simp
  have v4: "v < 4" using assms(2) pi_less_4 by linarith
  have "\<exists>n::int. v = of_int n * 2 powi (1 - 23)"
    using assms(1) v2 v4 by (intro binary32_grid) auto
  then obtain n :: int where n: "v = of_int n / 2 ^ 22"
    by (auto simp: power_int_minus_divide)
  have "v < 3373259430 / 2 ^ 30" using pi_upper assms(2) by linarith
  then have "of_int n < (13176795::real)" unfolding n by (simp add: field_simps)
  then have "n < 13176795" by linarith
  then have "n \<le> 13176794" by simp
  then have "of_int n \<le> (13176794::real)" by linarith
  then show ?thesis unfolding n by (simp add: field_simps)
qed

lemma binary32_below_3pi2:
  assumes "binary32 v" and "4 \<le> v" and "v < 3 * pi / 2"
  shows "v \<le> 9882595 / 2 ^ 21"
proof -
  have v8: "v < 8" using assms(3) pi_less_4 by linarith
  have "\<exists>n::int. v = of_int n * 2 powi (2 - 23)"
    using assms(1,2) v8 by (intro binary32_grid) auto
  then obtain n :: int where n: "v = of_int n / 2 ^ 21"
    by (auto simp: power_int_minus_divide)
  have "pi < 3373259430 / 1073741824" using pi_upper by simp
  then have "v < 3 * (3373259430 / 1073741824) / 2" using assms(3) by linarith
  then have "of_int n < (9882596::real)" unfolding n by (simp add: field_simps)
  then have "n < 9882596" by linarith
  then have "n \<le> 9882595" by simp
  then have "of_int n \<le> (9882595::real)" by linarith
  then show ?thesis unfolding n by (simp add: field_simps)
qed

lemma pi_not_binary32: "\<not> binary32 pi"
proof
  assume "binary32 pi"
  then have "13176795 / 2 ^ 22 \<le> pi"
    using pi_less_4 by (intro binary32_above_pi) auto
  then show False using pi_upper by simp
qed

section \<open>Canonical form of a line\<close>

text \<open>
  With exact arithmetic the step would keep the line: the pair
  \<open>(- rho, fmodf (theta + pi) (2 * pi))\<close> describes the points that \<open>(rho, theta)\<close>
  describes.
\<close>

lemma fmodf_2pi_shift: "\<exists>k::int. fmodf a (2 * pi) = a - of_int k * (2 * pi)"
  unfolding fmodf_def by blast

lemma cos_minus_int_2pi: "cos (a - of_int k * (2 * pi)) = cos a"
proof -
  have "cos (a - of_int k * (2 * pi)) = cos (a + 2 * pi * of_int (- k))"
    by (simp add: algebra_simps)
  also have "\<dots> = cos a"
    by (simp only: cos_add cos_int_2pin sin_int_2pin)
  finally show ?thesis .
qed

lemma sin_minus_int_2pi: "sin (a - of_int k * (2 * pi)) = sin a"
proof -
  have "sin (a - of_int k * (2 * pi)) = sin (a + 2 * pi * of_int (- k))"
    by (simp add: algebra_simps)
  also have "\<dots> = sin a"
    by (simp only: sin_add cos_int_2pin sin_int_2pin)
  finally show ?thesis .
qed

lemma cos_fmodf_2pi [simp]: "cos (fmodf a (2 * pi)) = cos a"
  using fmodf_2pi_shift [of a] cos_minus_int_2pi by auto

lemma sin_fmodf_2pi [simp]: "sin (fmodf a (2 * pi)) = sin a"
  using fmodf_2pi_shift [of a] sin_minus_int_2pi by auto

lemma same_line_exact:
  "{p. on_line (fmodf (t + pi) (2 * pi)) (- r) p} = {p. on_line t r p}"
proof -
  have "x * cos (t + pi) + y * sin (t + pi) = - r \<longleftrightarrow> x * cos t + y * sin t = r" for x y
    by (simp add: algebra_simps) linarith
  then show ?thesis by (auto simp: on_line_def)
qed

text \<open>
  In the code the sum \<open>theta + M_PI\<close> is rounded to binary32. It is finite for every
  float \<open>theta\<close>, and for \<open>0 \<le> theta < pi\<close> it is below the divisor
  \<open>13176795 / 2 ^ 21\<close>, so that \<open>fmodf\<close> returns it, and within \<open>2 ^ - 21\<close> of
  \<open>theta + pi\<close>: \<open>2 ^ - 22\<close> for the rounding to binary32, \<open>2 ^ - 51\<close> for the
  rounding to binary64 and less than \<open>10 / 2 ^ 30\<close> between \<open>M_PI\<close> and \<open>pi\<close>.
\<close>

lemma canonicalize_sum_finite:
  assumes "binary32 t"
  shows "\<exists>a. fl32 (fl64 (t + M_PI)) = Some a"
proof -
  define z where "z = t + M_PI"
  define d where "d = fl64 z"
  have t: "\<bar>t\<bar> \<le> 2 ^ 128 - 2 ^ 104" using assms by (rule binary32_bound)
  have m: "0 \<le> M_PI" "M_PI \<le> 4" by (simp_all add: M_PI_def)
  have z: "\<bar>z\<bar> \<le> 2 ^ 128 - 2 ^ 104 + 4" using t m unfolding z_def by linarith
  then have "\<bar>z\<bar> < 2 powi 128" by simp
  then have "\<bar>round_to 53 (- 1022) z - z\<bar> \<le> 2 powi (128 - int 53) / 2"
    by (rule round_to_error_below) simp
  then have dz: "\<bar>d - z\<bar> \<le> 2 ^ 74" by (simp add: d_def fl64_def)
  have d: "\<bar>d\<bar> \<le> 2 ^ 128 - 2 ^ 104 + 4 + 2 ^ 74" using z dz by linarith
  then have "\<bar>d\<bar> < 2 powi 128" by simp
  then have "\<bar>round_to 24 (- 126) d - d\<bar> \<le> 2 powi (128 - int 24) / 2"
    by (rule round_to_error_below) simp
  then have "\<bar>round_to 24 (- 126) d - d\<bar> \<le> 2 ^ 103" by simp
  then have "\<bar>round_to 24 (- 126) d\<bar> \<le> 2 ^ 128 - 2 ^ 104 + 4 + 2 ^ 74 + 2 ^ 103"
    using d by linarith
  then have "\<bar>round_to 24 (- 126) d\<bar> < 2 ^ 128" by simp
  then show ?thesis unfolding d_def z_def by (simp add: fl32_def Let_def)
qed

lemma float_2pi: "fl32 (2 * M_PI) = Some (13176795 / 2 ^ 21)"
  by (simp add: fl_eval M_PI_def)

lemma canonicalize_sum_near:
  assumes "binary32 t" and "0 \<le> t" and "t < pi" and "fl32 (fl64 (t + M_PI)) = Some a"
  shows "fmodf a (13176795 / 2 ^ 21) = a \<and> \<bar>a - (t + pi)\<bar> < 1 / 2 ^ 21"
proof -
  define z where "z = t + M_PI"
  define d where "d = fl64 z"
  have t: "t \<le> 13176794 / 2 ^ 22" using assms(1,3) by (rule binary32_below_pi)
  have z: "3 \<le> z" "z \<le> 13176794 / 2 ^ 22 + M_PI"
    using t assms(2) unfolding z_def by (simp_all add: M_PI_def)
  then have "\<bar>z\<bar> < 2 powi 3" by (simp add: M_PI_def)
  then have "\<bar>round_to 53 (- 1022) z - z\<bar> \<le> 2 powi (3 - int 53) / 2"
    by (rule round_to_error_below) simp
  then have dz: "\<bar>d - z\<bar> \<le> 1 / 2 ^ 51"
    by (simp add: d_def fl64_def power_int_minus_divide)
  have "(1::real) / 2 ^ 51 \<le> 1" by simp
  then have dz1: "\<bar>d - z\<bar> \<le> 1" using dz by linarith
  have zu: "z \<le> 13 / 2" using z(2) by (simp add: M_PI_def)
  have d: "2 \<le> d" "d < 8" using z(1) zu dz1 by linarith+
  then have "\<bar>d\<bar> < 2 powi 3" by simp
  then have "\<bar>round_to 24 (- 126) d - d\<bar> \<le> 2 powi (3 - int 24) / 2"
    by (rule round_to_error_below) simp
  then have rd: "\<bar>round_to 24 (- 126) d - d\<bar> \<le> 1 / 2 ^ 22"
    by (simp add: power_int_minus_divide)
  have a: "a = round_to 24 (- 126) d"
    using assms(4) unfolding d_def z_def by (simp add: fl32_def Let_def split: if_splits)
  have ad: "\<bar>a - d\<bar> \<le> 1 / 2 ^ 22" using rd a by simp
  have az: "\<bar>a - z\<bar> \<le> 1 / 2 ^ 22 + 1 / 2 ^ 51" using ad dz by linarith
  have p: "\<bar>M_PI - pi\<bar> < 10 / 2 ^ 30"
  proof -
    have l: "3373259420 / 1073741824 < pi" using pi_lower by simp
    have u: "pi < 3373259430 / 1073741824" using pi_upper by simp
    have m: "M_PI = 884279719003555 / 281474976710656" by (simp add: M_PI_def)
    have "\<bar>M_PI - pi\<bar> < 10 / 1073741824" unfolding m using l u by linarith
    then show ?thesis by simp
  qed
  have "a - (t + pi) = (a - z) + (M_PI - pi)" by (simp add: z_def)
  then have "\<bar>a - (t + pi)\<bar> \<le> \<bar>a - z\<bar> + \<bar>M_PI - pi\<bar>" by linarith
  then have "\<bar>a - (t + pi)\<bar> < 1 / 2 ^ 22 + 1 / 2 ^ 51 + 10 / 2 ^ 30" using az p by linarith
  then have near: "\<bar>a - (t + pi)\<bar> < 1 / 2 ^ 21" by simp
  have azn: "\<bar>a - z\<bar> \<le> 536870913 / 2251799813685248" using az by simp
  have zn: "z \<le> 13176794 / 4194304 + 884279719003555 / 281474976710656"
    using z(2) by (simp add: M_PI_def)
  have a0: "0 < a" using azn z(1) by linarith
  have "a < 13176795 / 2097152" using azn zn by linarith
  then have a1: "a < 13176795 / 2 ^ 21" by simp
  have q: "0 \<le> a / (13176795 / 2 ^ 21)" "a / (13176795 / 2 ^ 21) < 1" using a0 a1 by simp_all
  then have "\<lfloor>a / (13176795 / 2 ^ 21)\<rfloor> = 0" by linarith
  then have "fmodf a (13176795 / 2 ^ 21) = a" using q(1) by (simp add: fmodf_def)
  then show ?thesis using near by simp
qed

text \<open>
  C9 (as the code has it). For a line with \<open>rho < 0\<close> and a float \<open>theta\<close> the first
  step of the clipper produces \<open>rho' = - rho\<close>, which is positive, and
  \<open>theta' = fmodf a b\<close>, where \<open>a\<close> is the sum \<open>theta + M_PI\<close> rounded to binary32
  and \<open>b = 13176795 / 2 ^ 21\<close> (6.2831855) is \<open>2 * M_PI\<close> rounded to binary32. So
  \<open>theta'\<close> is \<open>theta + pi\<close> reduced by \<open>2 * pi\<close> up to rounding only: for
  \<open>0 \<le> theta < pi\<close> it is \<open>a\<close> itself and lies within \<open>2 ^ - 21\<close> (4.8e-7) of
  \<open>theta + pi\<close>. The new parameters describe the same line up to this rounding of the
  angle: the points with \<open>x * cos theta' + y * sin theta' = rho'\<close> are the points with
  \<open>x * cos theta + y * sin theta = rho\<close> for the exact values \<open>rho' = - rho\<close> and
  \<open>theta' = fmodf (theta + pi) (2 * pi)\<close>.
\<close>

theorem canonicalize_negative_rho:
  assumes "binary32 (theta line)" and "rho line < 0"
  shows "\<exists>a. fl32 (fl64 (theta line + M_PI)) = Some a
             \<and> fl32 (2 * M_PI) = Some (13176795 / 2 ^ 21)
             \<and> canonicalize line = Some (fmodf a (13176795 / 2 ^ 21), - rho line)
             \<and> 0 < - rho line
             \<and> (0 \<le> theta line \<and> theta line < pi \<longrightarrow>
                   fmodf a (13176795 / 2 ^ 21) = a \<and> \<bar>a - (theta line + pi)\<bar> < 1 / 2 ^ 21)
             \<and> {p. on_line (fmodf (theta line + pi) (2 * pi)) (- rho line) p}
                 = {p. on_line (theta line) (rho line) p}"
proof -
  obtain a where a: "fl32 (fl64 (theta line + M_PI)) = Some a"
    using canonicalize_sum_finite [OF assms(1)] by blast
  have c: "canonicalize line = Some (fmodf a (13176795 / 2 ^ 21), - rho line)"
    using assms(2) by (simp add: canonicalize_def a float_2pi)
  have n: "0 \<le> theta line \<and> theta line < pi \<longrightarrow>
             fmodf a (13176795 / 2 ^ 21) = a \<and> \<bar>a - (theta line + pi)\<bar> < 1 / 2 ^ 21"
    using canonicalize_sum_near [OF assms(1) _ _ a] by blast
  show ?thesis using a c n float_2pi assms(2) same_line_exact by auto
qed

lemma canonicalize_zero: "canonicalize \<lparr>theta = 0, rho = - 1\<rparr> = Some (13176795 / 2 ^ 22, 1)"
  by (simp add: canonicalize_def fl_eval M_PI_def fmodf_def)

theorem canonicalize_negative_rho_witness:
  "binary32 0 \<and> (- 1::real) < 0 \<and> (0::real) < pi
   \<and> canonicalize \<lparr>theta = 0, rho = - 1\<rparr> = Some (13176795 / 2 ^ 22, 1)
   \<and> \<bar>13176795 / 2 ^ 22 - (0 + pi)\<bar> < 1 / 2 ^ 21
   \<and> {p. on_line (fmodf (0 + pi) (2 * pi)) 1 p} = {p. on_line 0 (- 1) p}"
proof -
  have b: "binary32 0" by (simp add: binary32_def fl_eval)
  have s: "fl32 (fl64 (0 + M_PI)) = Some (13176795 / 2 ^ 22)" by (simp add: fl_eval M_PI_def)
  obtain a where a: "fl32 (fl64 (0 + M_PI)) = Some a"
    and n: "\<bar>a - (0 + pi)\<bar> < 1 / 2 ^ 21"
    and e: "{p. on_line (fmodf (0 + pi) (2 * pi)) 1 p} = {p. on_line 0 (- 1) p}"
    using canonicalize_negative_rho [of "\<lparr>theta = 0, rho = - 1\<rparr>"] b by auto
  have av: "a = 13176795 / 2 ^ 22" using a s by simp
  have "\<bar>13176795 / 2 ^ 22 - (0 + pi)\<bar> < 1 / 2 ^ 21" using n unfolding av .
  then show ?thesis using b e canonicalize_zero by simp
qed

text \<open>
  C9 as stated fails: the line \<open>theta = 0\<close>, \<open>rho = - 1\<close> (the vertical line
  \<open>x = - 1\<close>) gets \<open>rho' = 1\<close> and \<open>theta' = 13176795 / 2 ^ 22\<close>, the float above
  \<open>pi\<close>. The point \<open>(- 1, 0)\<close> of the line does not satisfy
  \<open>x * cos theta' + y * sin theta' = rho'\<close>, so the two sets of points differ.
\<close>

theorem canonicalize_not_same_line_counterexample:
  "rho \<lparr>theta = 0, rho = - 1\<rparr> < 0
   \<and> canonicalize \<lparr>theta = 0, rho = - 1\<rparr> = Some (13176795 / 2 ^ 22, 1)
   \<and> on_line 0 (- 1) (- 1, 0)
   \<and> \<not> on_line (13176795 / 2 ^ 22) 1 (- 1, 0)
   \<and> {p. on_line (13176795 / 2 ^ 22) 1 p} \<noteq> {p. on_line 0 (- 1) p}"
proof -
  define t :: real where "t = 13176795 / 2 ^ 22"
  have "pi < t" using pi_upper by (simp add: t_def)
  moreover have "t < 2 * pi" using pi_ge_two by (simp add: t_def)
  ultimately have s: "sin t < 0" by (rule sin_lt_zero)
  have "cos t \<noteq> - 1"
  proof
    assume "cos t = - 1"
    then have "(sin t)\<^sup>2 = 0" using sin_cos_squared_add [of t] by simp
    then show False using s by simp
  qed
  then have n: "\<not> on_line t 1 (- 1, 0)" by (simp add: on_line_def)
  have o: "on_line 0 (- 1) (- 1, 0)" by (simp add: on_line_def)
  have "{p. on_line t 1 p} \<noteq> {p. on_line 0 (- 1) p}" using n o by blast
  then show ?thesis using n o canonicalize_zero unfolding t_def by simp
qed

section \<open>The clipper\<close>

subsection \<open>The vertical case\<close>

text \<open>
  C4. For a line whose canonical form \<open>(theta, rho)\<close> has \<open>sinf theta = 0\<close>, the test
  \<open>sinTheta == 0.0f\<close> of the source, the clipper emits the vertical segment of full
  height at \<open>x + cosTheta * rho\<close>. The sine of the C library is zero at zero and at no
  other float (no other float is near enough to a multiple of \<open>pi\<close>), and its cosine
  is 1 there; these two properties of the library are the hypotheses on \<open>sinf\<close> and
  \<open>cosf\<close>. So \<open>cosTheta * rho\<close> is \<open>rho\<close>, without rounding, and the segment is
  \<open>(x + rho, y)\<close> to \<open>(x + rho, y + height)\<close>, the two sums being those of
  \<open>float\<close>: \<open>a\<close> and \<open>c\<close> are their values. For \<open>theta = 0\<close>, \<open>rho = R \<ge> 0\<close>
  and no placement offset the segment is \<open>(R, 0)\<close> to \<open>(R, height)\<close> exactly.
\<close>

theorem clip_line_vertical:
  assumes "\<forall>u. (sinf u = 0) = (u = 0)" and "cosf 0 = 1"
    and "canonicalize line = Some (t, r)" and "sinf t = 0" and "binary32 r"
    and "fl32 (x + r) = Some a" and "fl32 (y + h) = Some c"
    and "binary32 R" and "0 \<le> R" and "binary32 H"
  shows "clip_line sinf cosf x y w h line = Inr (Some (a, y, a, c))
         \<and> clip_line sinf cosf 0 0 w H \<lparr>theta = 0, rho = R\<rparr> = Inr (Some (R, 0, R, H))"
proof -
  have t: "t = 0" using assms(1,4) by simp
  have s0: "sinf 0 = 0" using assms(1) by simp
  have 1: "clip_line sinf cosf x y w h line = Inr (Some (a, y, a, c))"
    using assms(2,5,6,7) s0
    by (simp add: clip_line_def assms(3) t Let_def fmul_def fadd_def segment_def binary32_def)
  have c: "canonicalize \<lparr>theta = 0, rho = R\<rparr> = Some (0, R)"
    using assms(9) by (simp add: canonicalize_def)
  have 2: "clip_line sinf cosf 0 0 w H \<lparr>theta = 0, rho = R\<rparr> = Inr (Some (R, 0, R, H))"
    using assms(2,8,10) s0
    by (simp add: clip_line_def c Let_def fmul_def fadd_def segment_def binary32_def)
  show ?thesis using 1 2 by simp
qed

text \<open>
  The line \<open>theta = 13176795 / 2 ^ 22\<close> (the float above \<open>pi\<close>), \<open>rho = - 5\<close> has the
  canonical angle 0: the sum \<open>theta + M_PI\<close> is rounded to the divisor of \<open>fmodf\<close>.
\<close>

lemma canonicalize_float_pi:
  "canonicalize \<lparr>theta = 13176795 / 2 ^ 22, rho = - 5\<rparr> = Some (0, 5)"
  by (simp add: canonicalize_def fl_eval M_PI_def fmodf_def)

theorem clip_line_vertical_witness:
  "canonicalize \<lparr>theta = 13176795 / 2 ^ 22, rho = - 5\<rparr> = Some (0, 5)
   \<and> binary32 5 \<and> fl32 (3 + 5) = Some 8 \<and> fl32 (4 + 480) = Some 484
   \<and> binary32 7 \<and> (0::real) \<le> 7 \<and> binary32 480
   \<and> clip_line (\<lambda>u. u) (\<lambda>u. 1) 3 4 640 480 \<lparr>theta = 13176795 / 2 ^ 22, rho = - 5\<rparr>
       = Inr (Some (8, 4, 8, 484))
   \<and> clip_line (\<lambda>u. u) (\<lambda>u. 1) 0 0 640 480 \<lparr>theta = 0, rho = 7\<rparr>
       = Inr (Some (7, 0, 7, 480))"
proof -
  have b: "binary32 5" "binary32 7" "binary32 480" by (simp_all add: binary32_def fl_eval)
  have f: "fl32 (3 + 5) = Some 8" "fl32 (4 + 480) = Some 484" by (simp_all add: fl_eval)
  show ?thesis
    using clip_line_vertical [of "\<lambda>u. u" "\<lambda>u. 1"
        "\<lparr>theta = 13176795 / 2 ^ 22, rho = - 5\<rparr>" 0 5 3 8 4 480 484 7 480 640]
      canonicalize_float_pi b f
    by simp
qed

subsection \<open>The quadrant that is dropped\<close>

text \<open>
  C3. For \<open>rho \<ge> 0\<close> and every float \<open>theta\<close> with \<open>pi \<le> theta < 3 * pi / 2\<close> the
  clipper emits no segment, and \<open>DrawLines\<close> makes no call of \<open>DrawLine\<close> for the
  line. Such a float is at least \<open>13176795 / 2 ^ 22\<close>, which is above \<open>M_PI\<close>, and at
  most \<open>9882595 / 2 ^ 21\<close>, which is below \<open>3 * M_PI / 2\<close>, so the three tests of the
  quadrant dispatch fail; and it lies strictly between \<open>pi\<close> and \<open>2 * pi\<close>, where the
  sine is negative, so the test \<open>sinTheta == 0.0f\<close> fails as well. The hypothesis on
  \<open>sinf\<close> is that the library returns zero only where the sine is zero.
\<close>

theorem clip_line_upper_left_dropped:
  assumes "binary32 (theta line)" and "0 \<le> rho line"
    and "pi \<le> theta line" and "theta line < 3 * pi / 2"
    and "\<forall>t. sinf t = 0 \<longrightarrow> sin t = 0"
  shows "clip_line sinf cosf x y w h line = Inr None
         \<and> DrawLines sinf cosf painter x y w h [line] red green blue = Inr painter"
proof -
  have c: "canonicalize line = Some (theta line, rho line)"
    using assms(2) by (simp add: canonicalize_def)
  have lo: "13176795 / 2 ^ 22 \<le> theta line \<and> theta line \<le> 9882595 / 2 ^ 21"
  proof (cases "theta line < 4")
    case True
    then show ?thesis using binary32_above_pi [OF assms(1,3)] by simp
  next
    case False
    then show ?thesis using binary32_below_3pi2 [OF assms(1) _ assms(4)] by simp
  qed
  have gt: "pi < theta line" using lo pi_upper by (simp add: field_simps) 
  have "sin (theta line) < 0"
    using gt assms(4) pi_gt_zero by (intro sin_lt_zero) linarith+
  then have s: "sinf (theta line) \<noteq> 0" using assms(5) by auto
  have n1: "\<not> theta line \<le> M_PI / 2" using lo by (simp add: M_PI_def)
  have n2: "\<not> theta line \<le> M_PI" using lo by (simp add: M_PI_def)
  have n3: "\<not> 3 * M_PI / 2 \<le> theta line" using lo by (simp add: M_PI_def)
  have "clip_line sinf cosf x y w h line = Inr None"
    using s n1 n2 n3 by (simp add: clip_line_def c Let_def)
  then show ?thesis by simp
qed

theorem clip_line_upper_left_dropped_witness:
  "binary32 (13176795 / 2 ^ 22) \<and> (0::real) \<le> 100
   \<and> pi \<le> 13176795 / 2 ^ 22 \<and> 13176795 / 2 ^ 22 < 3 * pi / 2
   \<and> clip_line sin cos 0 0 640 480 \<lparr>theta = 13176795 / 2 ^ 22, rho = 100\<rparr> = Inr None
   \<and> DrawLines sin cos \<lparr>windowWidth = 1400, windowHeight = 600, commands = []\<rparr> 0 0 640 480
        [\<lparr>theta = 13176795 / 2 ^ 22, rho = 100\<rparr>] 10 10 10
      = Inr \<lparr>windowWidth = 1400, windowHeight = 600, commands = []\<rparr>"
proof -
  have b: "binary32 (13176795 / 2 ^ 22)" by (simp add: binary32_def fl_eval)
  have p1: "pi \<le> 13176795 / 2 ^ 22" using pi_upper by simp
  have p2: "13176795 / 2 ^ 22 < 3 * pi / 2" using pi_lower by simp
  show ?thesis
    using clip_line_upper_left_dropped [of "\<lparr>theta = 13176795 / 2 ^ 22, rho = 100\<rparr>" sin
        cos 0 0 640 480 "\<lparr>windowWidth = 1400, windowHeight = 600, commands = []\<rparr>" 10 10 10]
      b p1 p2
    by simp
qed

subsection \<open>A segment outside the rectangle\<close>

text \<open>
  C2 (the code breaks the claim). The line \<open>theta = 13176795 / 2 ^ 24\<close> (0.7853982,
  \<open>pi / 4\<close> as a float), \<open>rho = 4\<close> does not meet the rectangle of width 1 and height
  1. The branches for the other quadrants drop such a line (\<open>continue\<close>); the branch
  for \<open>0 < theta \<le> M_PI / 2\<close> has no such test. The C library returns
  \<open>11863283 / 2 ^ 24\<close> (0.70710677) for the sine and for the cosine of this float; with
  these values no operation of the branch rounds, and the clipper emits the segment from
  \<open>(9766131 / 2 ^ 21, 1)\<close> to \<open>(1, 9766131 / 2 ^ 21)\<close>, that is from (4.6568542, 1) to
  (1, 4.6568542), both ends outside the rectangle.
\<close>

theorem clip_line_segment_outside_rectangle:
  assumes "sinf (13176795 / 2 ^ 24) = 11863283 / 2 ^ 24"
    and "cosf (13176795 / 2 ^ 24) = 11863283 / 2 ^ 24"
  shows "binary32 (13176795 / 2 ^ 24) \<and> 0 < (13176795 / 2 ^ 24 :: real)
         \<and> 13176795 / 2 ^ 24 \<le> pi / 2
         \<and> clip_line sinf cosf 0 0 1 1 \<lparr>theta = 13176795 / 2 ^ 24, rho = 4\<rparr>
             = Inr (Some (9766131 / 2 ^ 21, 1, 1, 9766131 / 2 ^ 21))
         \<and> \<not> inside 1 1 (9766131 / 2 ^ 21, 1) \<and> \<not> inside 1 1 (1, 9766131 / 2 ^ 21)"
proof -
  have b: "binary32 (13176795 / 2 ^ 24)" by (simp add: binary32_def fl_eval)
  have p: "13176795 / 2 ^ 24 \<le> pi / 2" using pi_ge_two by simp
  have c: "canonicalize \<lparr>theta = 13176795 / 2 ^ 24, rho = 4\<rparr> = Some (13176795 / 2 ^ 24, 4)"
    by (simp add: canonicalize_def)
  have f: "fl32 1 = Some 1" "fl32 (- 1) = Some (- 1)"
    "fl32 (11863283 / 4194304) = Some (11863283 / 4194304)"
    "fl32 (11863283 / 2097152) = Some (11863283 / 2097152)"
    "fl32 (- (11863283 / 2097152)) = Some (- (11863283 / 2097152))"
    "fl32 (9766131 / 2097152) = Some (9766131 / 2097152)"
    "fl32 (- (9766131 / 2097152)) = Some (- (9766131 / 2097152))"
    "fl32 (- (7668979 / 4194304)) = Some (- (7668979 / 4194304))"
    by (simp_all add: fl_eval)
  have s: "sinf (13176795 / 16777216) = 11863283 / 16777216"
    "cosf (13176795 / 16777216) = 11863283 / 16777216"
    using assms by simp_all
  have "clip_line sinf cosf 0 0 1 1 \<lparr>theta = 13176795 / 2 ^ 24, rho = 4\<rparr>
          = Inr (Some (9766131 / 2 ^ 21, 1, 1, 9766131 / 2 ^ 21))"
    unfolding clip_line_def c by (simp add: fop_eval M_PI_def Let_def s f)
  then show ?thesis using b p by (simp add: inside_def)
qed

theorem clip_line_segment_outside_rectangle_witness:
  "clip_line (\<lambda>t. 11863283 / 2 ^ 24) (\<lambda>t. 11863283 / 2 ^ 24) 0 0 1 1
      \<lparr>theta = 13176795 / 2 ^ 24, rho = 4\<rparr>
     = Inr (Some (9766131 / 2 ^ 21, 1, 1, 9766131 / 2 ^ 21))
   \<and> \<not> inside 1 1 (9766131 / 2 ^ 21, 1) \<and> \<not> inside 1 1 (1, 9766131 / 2 ^ 21)"
  using clip_line_segment_outside_rectangle [of "\<lambda>t. 11863283 / 2 ^ 24" "\<lambda>t. 11863283 / 2 ^ 24"]
  by simp

text \<open>
  The branch for \<open>M_PI / 2 \<le> theta \<le> M_PI\<close> leaves the rectangle as well. For
  \<open>theta = 13176795 / 2 ^ 23\<close> (1.5707964, \<open>pi / 2\<close> as a float, which is above
  \<open>M_PI / 2\<close>) the library returns the sine 1 and the cosine \<open>- 6151831 / 2 ^ 47\<close>
  (-4.371139e-8). With \<open>rho = 10\<close> in a rectangle of 10 by 10 the sum \<open>leftVertical\<close>
  is rounded to 10, so the line is not dropped, and the second end of the segment is
  \<open>bottomHorizontal = - 15379579 / 2 ^ 45\<close> (-4.3711393e-7): left of the rectangle.
\<close>

lemma clip_line_at_half_pi:
  assumes "sinf (13176795 / 2 ^ 23) = 1"
    and "cosf (13176795 / 2 ^ 23) = - (6151831 / 2 ^ 47)"
  shows "clip_line sinf cosf 0 0 10 10 \<lparr>theta = 13176795 / 2 ^ 23, rho = 10\<rparr>
           = Inr (Some (0, 10, - (15379579 / 2 ^ 45), 10))"
proof -
  have c: "canonicalize \<lparr>theta = 13176795 / 2 ^ 23, rho = 10\<rparr> = Some (13176795 / 2 ^ 23, 10)"
    by (simp add: canonicalize_def)
  have f: "fl32 (- (30759155 / 70368744177664)) = Some (- (7689789 / 17592186044416))"
    "fl32 10 = Some 10"
    "fl32 (- (6151831 / 140737488355328)) = Some (- (6151831 / 140737488355328))"
    "fl32 (47306282353659 / 2475880078570760549798248448) = Some (11278697 / 590295810358705651712)"
    "fl32 (5902958103587067795817 / 590295810358705651712) = Some 10"
    "fl32 (- (5902958103587067795817 / 590295810358705651712)) = Some (- 10)"
    "fl32 (- (1407374883553280 / 6151831)) = Some (- 228773328)"
    "fl32 (30759155 / 70368744177664) = Some (7689789 / 17592186044416)"
    "fl32 (175921868133949 / 17592186044416) = Some 10"
    "fl32 0 = Some 0"
    "fl32 (- (11278697 / 590295810358705651712)) = Some (- (11278697 / 590295810358705651712))"
    "fl32 (- (11278697 / 25802649370624)) = Some (- (15379579 / 35184372088832))"
    "fl32 (- (15379579 / 35184372088832)) = Some (- (15379579 / 35184372088832))"
    by (simp_all add: fl_eval)
  have s: "sinf (13176795 / 8388608) = 1"
    "cosf (13176795 / 8388608) = - (6151831 / 140737488355328)"
    using assms by simp_all
  show ?thesis
    unfolding clip_line_def c by (simp add: fop_eval M_PI_def Let_def s f)
qed

section \<open>Cluster colours and placement\<close>

text \<open>The placement \<open>x\<close> given to \<open>DrawLineClusters\<close> has no effect on what is drawn.\<close>

lemma DrawLineClusters_ignores_x:
  "DrawLineClusters sinf cosf painter x y w h lineClusters
     = DrawLineClusters sinf cosf painter x' y w h lineClusters"
  by (simp add: DrawLineClusters_def)

text \<open>
  C7 (the code breaks the claim). Two clusters, the second with the vertical line
  \<open>theta = 0\<close>, \<open>rho = 5\<close>, drawn with placement \<open>(100, 0)\<close> into a rectangle of 10 by
  10, with a C library whose \<open>sinf 0\<close> is 0 and whose \<open>cosf 0\<close> is 1. The second
  cluster gets the second colour \<open>(128, 0, 255)\<close>, but its line is drawn at \<open>x = 1 + 5\<close>,
  the cluster's index plus \<open>rho\<close>, and not at \<open>x = 100 + 5\<close>: the loop counter \<open>x\<close>
  hides the parameter \<open>x\<close> in the call of \<open>DrawLines\<close>.
\<close>

theorem DrawLineClusters_offset_is_index:
  assumes "sinf 0 = 0" and "cosf 0 = 1"
  shows "DrawLineClusters sinf cosf \<lparr>windowWidth = 1400, windowHeight = 600, commands = []\<rparr>
        100 0 10 10 [[], [\<lparr>theta = 0, rho = 5\<rparr>]]
     = DrawLine \<lparr>windowWidth = 1400, windowHeight = 600, commands = []\<rparr> 6 0 6 10 128 0 255
   \<and> DrawLine \<lparr>windowWidth = 1400, windowHeight = 600, commands = []\<rparr> 6 0 6 10 128 0 255
     \<noteq> DrawLine \<lparr>windowWidth = 1400, windowHeight = 600, commands = []\<rparr> 105 0 105 10 128 0 255"
proof -
  have f: "fl32 5 = Some 5" "fl32 6 = Some 6" "fl32 10 = Some 10" by (simp_all add: fl_eval)
  have c: "canonicalize \<lparr>theta = 0, rho = 5\<rparr> = Some (0, 5)" by (simp add: canonicalize_def)
  have "clip_line sinf cosf 1 0 10 10 \<lparr>theta = 0, rho = 5\<rparr> = Inr (Some (6, 0, 6, 10))"
    unfolding clip_line_def c using assms f by (simp add: fop_eval)
  then have "DrawLineClusters sinf cosf \<lparr>windowWidth = 1400, windowHeight = 600, commands = []\<rparr>
      100 0 10 10 [[], [\<lparr>theta = 0, rho = 5\<rparr>]]
     = DrawLine \<lparr>windowWidth = 1400, windowHeight = 600, commands = []\<rparr> 6 0 6 10 128 0 255"
    by (simp add: DrawLineClusters_def clusterColors_def Let_def DrawLine_def
          DrawLine_vertices_def fdivf_def)
  moreover have "DrawLine \<lparr>windowWidth = 1400, windowHeight = 600, commands = []\<rparr> 6 0 6 10 128 0 255
     \<noteq> DrawLine \<lparr>windowWidth = 1400, windowHeight = 600, commands = []\<rparr> 105 0 105 10 128 0 255"
    by (simp add: DrawLine_def DrawLine_vertices_def fdivf_def submit_def Let_def)
  ultimately show ?thesis by simp
qed

theorem DrawLineClusters_offset_is_index_witness:
  "sin (0::real) = 0 \<and> cos (0::real) = 1
   \<and> DrawLineClusters sin cos \<lparr>windowWidth = 1400, windowHeight = 600, commands = []\<rparr>
        100 0 10 10 [[], [\<lparr>theta = 0, rho = 5\<rparr>]]
     = DrawLine \<lparr>windowWidth = 1400, windowHeight = 600, commands = []\<rparr> 6 0 6 10 128 0 255"
  using DrawLineClusters_offset_is_index [of sin cos] by simp

section \<open>Rounding to binary32\<close>

text \<open>
  \<open>bit_length\<close> brackets a positive number between two powers of two, so the exponent
  that \<open>f32_shift\<close> finds puts the scaled quotient between \<open>2 ^ 23\<close> and \<open>2 ^ 24\<close>, and
  \<open>round_half_even\<close> is within a half of it: \<open>f32_round\<close> is a rounding to 24
  significant bits.
\<close>

lemma scaled_quotient:
  "real (p * 2 ^ nat s) / real (q * 2 ^ nat (- s)) = real p / real q * 2 powi s"
proof (cases "0 \<le> s")
  case True
  then show ?thesis by (simp add: power_int_def)
next
  case False
  then show ?thesis by (simp add: power_int_def field_simps)
qed

lemma round_half_even_error:
  assumes "0 < D"
  shows "\<bar>real (round_half_even N D) - real N / real D\<bar> \<le> 1 / 2"
proof -
  define n where "n = N div D"
  define r where "r = N mod D"
  have N: "N = D * n + r" by (simp add: n_def r_def)
  have rD: "r < D" using assms by (simp add: r_def)
  have q: "real N / real D = real n + real r / real D"
    using assms by (simp add: N field_simps)
  have r1: "real r / real D < 1" using rD assms by simp
  have r0: "0 \<le> real r / real D" by simp
  show ?thesis
  proof (cases "D < 2 * r \<or> (2 * r = D \<and> odd n)")
    case True
    then have "D \<le> 2 * r" by auto
    then have "real D \<le> 2 * real r" by (metis of_nat_le_iff of_nat_mult of_nat_numeral)
    then have "1 / 2 \<le> real r / real D" using assms by (simp add: field_simps)
    moreover have "round_half_even N D = n + 1"
      using True by (simp add: round_half_even_def n_def r_def Let_def)
    ultimately show ?thesis using r1 by (simp add: q)
  next
    case False
    then have "2 * r \<le> D" by auto
    then have "2 * real r \<le> real D" by (metis of_nat_le_iff of_nat_mult of_nat_numeral)
    then have "real r / real D \<le> 1 / 2" using assms by (simp add: field_simps)
    moreover have "round_half_even N D = n"
      using False by (simp add: round_half_even_def n_def r_def Let_def)
    ultimately show ?thesis using r0 by (simp add: q)
  qed
qed

lemma f32_shift_normal:
  assumes "0 < p" and "0 < q"
  shows "2 ^ 23 \<le> real p / real q * 2 powi f32_shift p q
         \<and> real p / real q * 2 powi f32_shift p q < 2 ^ 24"
proof -
  define s0 where "s0 = 24 + int (bit_length q) - int (bit_length p)"
  define X0 where "X0 = real p / real q * 2 powi s0"
  have bp: "2 powi (int (bit_length p) - 1) \<le> real p" "real p < 2 powi int (bit_length p)"
    using bit_length_real [OF assms(1)] by simp_all
  have bq: "2 powi (int (bit_length q) - 1) \<le> real q" "real q < 2 powi int (bit_length q)"
    using bit_length_real [OF assms(2)] by simp_all
  have qpos: "0 < real q" using assms(2) by simp
  have e1: "(2::real) powi (int (bit_length p) - 1) * 2 powi s0 = 2 ^ 23 * 2 powi int (bit_length q)"
  proof -
    have "(2::real) powi (int (bit_length p) - 1) * 2 powi s0
            = (2::real) powi (int (bit_length p) - 1 + s0)"
      by (rule power_int_add [symmetric]) simp
    also have "int (bit_length p) - 1 + s0 = 23 + int (bit_length q)"
      by (simp add: s0_def)
    also have "(2::real) powi (23 + int (bit_length q)) = 2 powi 23 * 2 powi int (bit_length q)"
      by (rule power_int_add) simp
    also have "(2::real) powi 23 = 2 ^ 23" by simp
    finally show ?thesis .
  qed
  have e2: "(2::real) powi int (bit_length p) * 2 powi s0 = 2 ^ 25 * 2 powi (int (bit_length q) - 1)"
  proof -
    have "(2::real) powi int (bit_length p) * 2 powi s0 = (2::real) powi (int (bit_length p) + s0)"
      by (rule power_int_add [symmetric]) simp
    also have "int (bit_length p) + s0 = 25 + (int (bit_length q) - 1)"
      by (simp add: s0_def)
    also have "(2::real) powi (25 + (int (bit_length q) - 1))
                 = 2 powi 25 * 2 powi (int (bit_length q) - 1)"
      by (rule power_int_add) simp
    also have "(2::real) powi 25 = 2 ^ 25" by simp
    finally show ?thesis .
  qed
  have spos: "0 < (2::real) powi s0" by simp
  have lo: "2 ^ 23 < X0"
  proof -
    have "2 ^ 23 * real q < 2 ^ 23 * 2 powi int (bit_length q)"
      using bq(2) by simp
    also have "\<dots> = 2 powi (int (bit_length p) - 1) * 2 powi s0"
      by (simp only: e1)
    also have "\<dots> \<le> real p * 2 powi s0"
      using bp(1) spos by (intro mult_right_mono) auto
    finally have "2 ^ 23 * real q < real p * 2 powi s0" .
    then show ?thesis
      using qpos by (simp add: X0_def field_simps)
  qed
  have hi: "X0 < 2 ^ 25"
  proof -
    have "real p * 2 powi s0 < 2 powi int (bit_length p) * 2 powi s0"
      using bp(2) spos by (intro mult_strict_right_mono) auto
    also have "\<dots> = 2 ^ 25 * 2 powi (int (bit_length q) - 1)"
      by (simp only: e2)
    also have "\<dots> \<le> 2 ^ 25 * real q"
      using bq(1) by simp
    finally have "real p * 2 powi s0 < 2 ^ 25 * real q" .
    then show ?thesis
      using qpos by (simp add: X0_def field_simps)
  qed
  have D: "0 < real (q * 2 ^ nat (- s0))" using assms(2) by simp
  have test: "(2 ^ 24 * (q * 2 ^ nat (- s0)) \<le> p * 2 ^ nat s0) \<longleftrightarrow> 2 ^ 24 \<le> X0"
  proof -
    have "(2 ^ 24 * (q * 2 ^ nat (- s0)) \<le> p * 2 ^ nat s0)
            \<longleftrightarrow> real (2 ^ 24 * (q * 2 ^ nat (- s0))) \<le> real (p * 2 ^ nat s0)"
      by (simp only: of_nat_le_iff)
    also have "\<dots> \<longleftrightarrow> 2 ^ 24 * real (q * 2 ^ nat (- s0)) \<le> real (p * 2 ^ nat s0)"
      by simp
    also have "\<dots> \<longleftrightarrow> 2 ^ 24 \<le> real (p * 2 ^ nat s0) / real (q * 2 ^ nat (- s0))"
      using D by (simp only: pos_le_divide_eq)
    also have "\<dots> \<longleftrightarrow> 2 ^ 24 \<le> X0"
      by (simp only: scaled_quotient X0_def)
    finally show ?thesis .
  qed
  have half: "real p / real q * 2 powi (s0 - 1) = X0 / 2"
    by (simp add: X0_def power_int_diff)
  show ?thesis
  proof (cases "2 ^ 24 \<le> X0")
    case True
    then have sh: "f32_shift p q = s0 - 1"
      using test by (simp add: f32_shift_def s0_def Let_def)
    show ?thesis unfolding sh half using True hi by simp
  next
    case False
    then have sh: "f32_shift p q = s0"
      using test by (simp add: f32_shift_def s0_def Let_def)
    show ?thesis unfolding sh X0_def [symmetric] using False lo by simp
  qed
qed

lemma f32_round_spec:
  assumes "0 < p" and "0 < q"
  shows "\<exists>(s::int) n. f32_round p q = Fin (n * 2 ^ nat (- s)) (2 ^ nat s)
           \<and> 2 ^ 23 \<le> real p / real q * 2 powi s
           \<and> real p / real q * 2 powi s < 2 ^ 24
           \<and> \<bar>real n - real p / real q * 2 powi s\<bar> \<le> 1 / 2"
proof -
  define s where "s = f32_shift p q"
  define n where "n = round_half_even (p * 2 ^ nat s) (q * 2 ^ nat (- s))"
  have r: "f32_round p q = Fin (n * 2 ^ nat (- s)) (2 ^ nat s)"
    using assms(1) by (simp add: f32_round_def Let_def s_def n_def)
  have "0 < q * 2 ^ nat (- s)" using assms(2) by simp
  then have "\<bar>real n - real (p * 2 ^ nat s) / real (q * 2 ^ nat (- s))\<bar> \<le> 1 / 2"
    unfolding n_def by (rule round_half_even_error)
  then have e: "\<bar>real n - real p / real q * 2 powi s\<bar> \<le> 1 / 2"
    by (simp only: scaled_quotient)
  show ?thesis
    using r e f32_shift_normal [OF assms] unfolding s_def by blast
qed

lemma exponent_at_least_16:
  assumes "2 ^ 23 \<le> (X::real) * 2 powi s" and "0 \<le> X" and "X < 256"
  shows "16 \<le> s"
proof (rule ccontr)
  assume "\<not> 16 \<le> s"
  then have "s \<le> 15" by simp
  then have "(2::real) powi s \<le> 2 powi 15" by (intro power_int_increasing) auto
  then have "X * 2 powi s \<le> X * 2 powi 15"
    using assms(2) by (intro mult_left_mono) auto
  also have "\<dots> < 256 * 2 powi 15"
    using assms(3) by (intro mult_strict_right_mono) auto
  also have "\<dots> = 2 ^ 23" by simp
  finally show False using assms(1) by simp
qed

lemma f32_multiplier:
  assumes "0 < M"
  shows "\<exists>S n. f32_div 255 M = Fin n (2 ^ S) \<and> 16 \<le> S
           \<and> \<bar>real n - 255 / real M * 2 ^ S\<bar> \<le> 1 / 2
           \<and> real M * 32768 < 2 ^ S"
proof -
  obtain s :: int and n where r: "f32_round 255 M = Fin (n * 2 ^ nat (- s)) (2 ^ nat s)"
    and lo: "2 ^ 23 \<le> real 255 / real M * 2 powi s"
    and err: "\<bar>real n - real 255 / real M * 2 powi s\<bar> \<le> 1 / 2"
    using f32_round_spec [of 255 M] assms by auto
  have m1: "1 \<le> real M" using assms by simp
  have "255 / real M \<le> 255" using m1 by (simp add: field_simps)
  then have "16 \<le> s"
    using lo by (intro exponent_at_least_16 [of "255 / real M"]) auto
  then obtain S where S: "s = int S" "16 \<le> S"
    by (metis nat_0_le nat_le_iff of_nat_numeral order_trans zero_le_numeral nat_int)
  have p: "(2::real) powi s = 2 ^ S" by (simp add: S)
  have d: "f32_div 255 M = Fin n (2 ^ S)"
    using assms r by (simp add: f32_div_def S)
  have "8388608 * real M \<le> 255 * 2 ^ S"
    using lo m1 by (simp add: p field_simps)
  moreover have "0 < (2::real) ^ S" by simp
  ultimately have "real M * 32768 < 2 ^ S" by linarith
  then show ?thesis using d S(2) err by (auto simp: p)
qed

lemma rescaled_value:
  assumes "0 < M" and "c \<le> M"
  shows "\<exists>v. f32_to_uchar (f32_mul c (f32_div 255 M)) = Some v
           \<and> (c = 0 \<longrightarrow> v = 0) \<and> (c = M \<longrightarrow> v = 254 \<or> v = 255)"
proof -
  obtain S n where d: "f32_div 255 M = Fin n (2 ^ S)" and S16: "16 \<le> S"
    and err: "\<bar>real n - 255 / real M * 2 ^ S\<bar> \<le> 1 / 2"
    and big: "real M * 32768 < 2 ^ S"
    using f32_multiplier [OF assms(1)] by blast
  show ?thesis
  proof (cases "c = 0")
    case True
    then show ?thesis using assms(1) by (simp add: d f32_round_def)
  next
    case False
    define A where "A = (2::real) ^ S"
    define m where "m = real M"
    define cr where "cr = real c"
    have mpos: "0 < m" using assms(1) by (simp add: m_def)
    have c1: "1 \<le> cr" using False by (simp add: cr_def)
    have cm: "cr \<le> m" using assms(2) by (simp add: cr_def m_def)
    have Apos: "0 < A" by (simp add: A_def)
    have errA: "\<bar>real n - 255 / m * A\<bar> \<le> 1 / 2" using err by (simp add: A_def m_def)
    have bigA: "m * 32768 < A" using big by (simp add: A_def m_def)
    have q: "255 / m * A * m = 255 * A" using mpos by simp
    have "real n * m \<le> (255 / m * A + 1 / 2) * m"
      using errA mpos by (intro mult_right_mono) linarith+
    then have nm_hi: "real n * m \<le> 255 * A + m / 2"
      using q by (simp add: distrib_right)
    have "(255 / m * A - 1 / 2) * m \<le> real n * m"
      using errA mpos by (intro mult_right_mono) linarith+
    then have nm_lo: "255 * A - m / 2 \<le> real n * m"
      using q by (simp add: left_diff_distrib)
    have "0 < real n * m" using nm_lo bigA mpos by linarith
    then have npos: "0 < n" using mpos by (simp add: zero_less_mult_iff)
    have "cr * real n \<le> m * real n" using cm by (intro mult_right_mono) auto
    then have cn_hi: "cr * real n \<le> 255 * A + m / 2"
      using nm_hi by (simp add: mult.commute)
    have pp: "0 < c * n" using False npos by simp
    obtain t :: int and n2
      where r2: "f32_round (c * n) (2 ^ S) = Fin (n2 * 2 ^ nat (- t)) (2 ^ nat t)"
        and lo2: "2 ^ 23 \<le> real (c * n) / real (2 ^ S) * 2 powi t"
        and err2: "\<bar>real n2 - real (c * n) / real (2 ^ S) * 2 powi t\<bar> \<le> 1 / 2"
      using f32_round_spec [of "c * n" "2 ^ S"] pp by auto
    define X where "X = cr * real n / A"
    have Xeq: "real (c * n) / real (2 ^ S) = X" by (simp add: X_def cr_def A_def)
    have XA: "X * A = cr * real n" using Apos by (simp add: X_def)
    have X0: "0 \<le> X" using c1 Apos by (simp add: X_def)
    have "X * A < (255 + 1 / 65536) * A"
      using cn_hi bigA by (simp add: XA distrib_right)
    then have X_up: "X < 255 + 1 / 65536"
      using Apos by (simp only: mult_less_cancel_right_pos)
    have lo2X: "2 ^ 23 \<le> X * 2 powi t" using lo2 unfolding Xeq .
    have "X < 256" using X_up by linarith
    then have "16 \<le> t" by (rule exponent_at_least_16 [OF lo2X X0])
    then obtain T where T: "t = int T" "16 \<le> T"
      by (metis nat_0_le nat_le_iff of_nat_numeral order_trans zero_le_numeral nat_int)
    define B where "B = (2::real) ^ T"
    have "(2::real) ^ 16 \<le> 2 ^ T" using T(2) by (intro power_increasing) auto
    then have B16: "65536 \<le> B" by (simp add: B_def)
    have Bpos: "0 < B" by (simp add: B_def)
    have "\<bar>real n2 - X * 2 powi t\<bar> \<le> 1 / 2" using err2 unfolding Xeq .
    then have err2B: "\<bar>real n2 - X * B\<bar> \<le> 1 / 2"
      unfolding T(1) B_def by (simp only: power_int_of_nat)
    have "X * B < (255 + 1 / 65536) * B"
      using X_up Bpos by (intro mult_strict_right_mono)
    then have "X * B < 255 * B + B / 65536" by (simp add: distrib_right)
    then have "real n2 < 256 * B" using err2B B16 by linarith
    then have "real n2 < real (256 * 2 ^ T)" by (simp add: B_def)
    then have "n2 < 256 * 2 ^ T" by (simp only: of_nat_less_iff)
    then have dv: "n2 div 2 ^ T < 256" by (simp add: less_mult_imp_div_less)
    have conv: "f32_to_uchar (f32_mul c (f32_div 255 M)) = Some (of_nat (n2 div 2 ^ T))"
      using dv by (simp add: d r2 T)
    have low: "254 \<le> n2 div 2 ^ T" if "c = M"
    proof -
      have "cr = m" using that by (simp add: cr_def m_def)
      with XA have "X * A = m * real n" by simp
      also have "\<dots> = real n * m" by (rule mult.commute)
      finally have "255 * A - m / 2 \<le> X * A"
        using nm_lo by simp
      then have "(255 - 1 / 65536) * A < X * A"
        using bigA by (simp add: left_diff_distrib)
      then have "255 - 1 / 65536 < X"
        using Apos by (simp only: mult_less_cancel_right_pos)
      then have "(255 - 1 / 65536) * B < X * B"
        using Bpos by (intro mult_strict_right_mono)
      then have "255 * B - B / 65536 < X * B" by (simp add: left_diff_distrib)
      then have "254 * B \<le> real n2" using err2B B16 by linarith
      then have "real (254 * 2 ^ T) \<le> real n2" by (simp add: B_def)
      then have "254 * 2 ^ T \<le> n2" by (simp only: of_nat_le_iff)
      then show ?thesis by (simp add: less_eq_div_iff_mult_less_eq)
    qed
    have "of_nat (n2 div 2 ^ T) = (254::byte) \<or> of_nat (n2 div 2 ^ T) = (255::byte)" if "c = M"
    proof -
      have "n2 div 2 ^ T = 254 \<or> n2 div 2 ^ T = 255"
        using low [OF that] dv by linarith
      then show ?thesis by auto
    qed
    then show ?thesis using conv False by auto
  qed
qed

section \<open>The Hough rescale\<close>

text \<open>The two loops of \<open>DrawHoughTransform\<close> over a well-formed accumulator: no read or
  write leaves the buffer, the first loop returns the largest count, and the second
  overwrites the three bytes of every cell with the converted product.\<close>

lemma read_cell_in_range:
  assumes "length d = n * 3" and "n * 3 < 2 ^ 32" and "x < n"
  shows "read_cell d x = Inr (unat (d ! (3 * x)) + 256 * unat (d ! (3 * x + 1)))"
proof -
  have "x * 3 < 4294967296" using assms(2,3) by simp
  then have i: "x * 3 mod 4294967296 = 3 * x" by (simp add: mult.commute)
  have "3 * x + 1 < length d" using assms(1,3) by simp
  then show ?thesis by (simp add: read_cell_def i Let_def del: mod_less)
qed

lemma find_maximum_result:
  assumes "length d = n * 3" and "n * 3 < 2 ^ 32" and "\<forall>x\<in>set xs. x < n"
  shows "\<exists>M. find_maximum d xs mx = Inr M \<and> mx \<le> M
           \<and> (\<forall>x\<in>set xs. unat (d ! (3 * x)) + 256 * unat (d ! (3 * x + 1)) \<le> M)
           \<and> (M = mx \<or> (\<exists>x\<in>set xs. unat (d ! (3 * x)) + 256 * unat (d ! (3 * x + 1)) = M))"
  using assms(3)
proof (induction xs arbitrary: mx)
  case Nil
  then show ?case by simp
next
  case (Cons x xs)
  define v where "v = unat (d ! (3 * x)) + 256 * unat (d ! (3 * x + 1))"
  have r: "read_cell d x = Inr v"
    using Cons.prems assms(1,2) by (simp add: read_cell_in_range v_def)
  obtain M where M: "find_maximum d xs (max mx v) = Inr M" "max mx v \<le> M"
    "\<forall>y\<in>set xs. unat (d ! (3 * y)) + 256 * unat (d ! (3 * y + 1)) \<le> M"
    "M = max mx v \<or> (\<exists>y\<in>set xs. unat (d ! (3 * y)) + 256 * unat (d ! (3 * y + 1)) = M)"
    using Cons.IH [of "max mx v"] Cons.prems by auto
  have "find_maximum d (x # xs) mx = Inr M" by (simp add: r M(1))
  moreover have "mx \<le> M" using M(2) by simp
  moreover have "\<forall>y\<in>set (x # xs). unat (d ! (3 * y)) + 256 * unat (d ! (3 * y + 1)) \<le> M"
    using M(2,3) by (auto simp: v_def)
  moreover have "M = mx \<or> (\<exists>y\<in>set (x # xs). unat (d ! (3 * y)) + 256 * unat (d ! (3 * y + 1)) = M)"
    using M(4) by (auto simp: v_def max_def split: if_splits)
  ultimately show ?case by blast
qed

lemma triple_update_nth:
  assumes "j div 3 = x" and "3 * x + 2 < length out"
  shows "out[3 * x + 0 := v, 3 * x + 1 := v, 3 * x + 2 := v] ! j = v"
proof -
  have "j = 3 * x \<or> j = 3 * x + 1 \<or> j = 3 * x + 2" using assms(1) by auto
  then show ?thesis using assms(2) by auto
qed

lemma triple_update_other:
  assumes "j div 3 \<noteq> x"
  shows "out[3 * x + 0 := v, 3 * x + 1 := v, 3 * x + 2 := v] ! j = out ! j"
proof -
  have "j \<noteq> 3 * x \<and> j \<noteq> 3 * x + 1 \<and> j \<noteq> 3 * x + 2" using assms by auto
  then show ?thesis by simp
qed

lemma rescale_cells_result:
  assumes "length d = n * 3" and "n * 3 < 2 ^ 32" and "0 < M"
    and "\<forall>x\<in>set xs. x < n"
    and "\<forall>x\<in>set xs. unat (d ! (3 * x)) + 256 * unat (d ! (3 * x + 1)) \<le> M"
    and "length out = n * 3"
  shows "\<exists>out'. rescale_cells d (f32_div 255 M) xs out = Inr out' \<and> length out' = n * 3
           \<and> (\<forall>j<n * 3.
                 (j div 3 \<in> set xs \<longrightarrow>
                    f32_to_uchar (f32_mul (unat (d ! (3 * (j div 3)))
                        + 256 * unat (d ! (3 * (j div 3) + 1))) (f32_div 255 M))
                      = Some (out' ! j))
                 \<and> (j div 3 \<notin> set xs \<longrightarrow> out' ! j = out ! j))"
  using assms(4,5,6)
proof (induction xs arbitrary: out)
  case Nil
  then show ?case by simp
next
  case (Cons x xs)
  define c where "c = unat (d ! (3 * x)) + 256 * unat (d ! (3 * x + 1))"
  have xn: "x < n" using Cons.prems(1) by simp
  have r: "read_cell d x = Inr c"
    using xn assms(1,2) by (simp add: read_cell_in_range c_def)
  have "c \<le> M" using Cons.prems(2) by (simp add: c_def)
  then obtain v where v: "f32_to_uchar (f32_mul c (f32_div 255 M)) = Some v"
    using rescaled_value [OF assms(3), of c] by blast
  have "x * 3 < 4294967296" using assms(2) xn by simp
  then have i: "x * 3 mod 4294967296 = 3 * x" by (simp add: mult.commute)
  have b: "3 * x + 2 < length out" using xn Cons.prems(3) by simp
  define out1 where "out1 = out[3 * x + 0 := v, 3 * x + 1 := v, 3 * x + 2 := v]"
  have step: "rescale_cells d (f32_div 255 M) (x # xs) out
                = rescale_cells d (f32_div 255 M) xs out1"
    using b by (simp add: r v i Let_def out1_def del: mod_less)
  have l1: "length out1 = n * 3" using Cons.prems(3) by (simp add: out1_def)
  obtain out' where o: "rescale_cells d (f32_div 255 M) xs out1 = Inr out'"
    "length out' = n * 3"
    "\<forall>j<n * 3.
       (j div 3 \<in> set xs \<longrightarrow>
          f32_to_uchar (f32_mul (unat (d ! (3 * (j div 3)))
              + 256 * unat (d ! (3 * (j div 3) + 1))) (f32_div 255 M))
            = Some (out' ! j))
       \<and> (j div 3 \<notin> set xs \<longrightarrow> out' ! j = out1 ! j)"
    using Cons.IH [of out1] Cons.prems(1,2) l1 by auto
  have "\<forall>j<n * 3.
       (j div 3 \<in> set (x # xs) \<longrightarrow>
          f32_to_uchar (f32_mul (unat (d ! (3 * (j div 3)))
              + 256 * unat (d ! (3 * (j div 3) + 1))) (f32_div 255 M))
            = Some (out' ! j))
       \<and> (j div 3 \<notin> set (x # xs) \<longrightarrow> out' ! j = out ! j)"
  proof (intro allI impI conjI)
    fix j assume j: "j < n * 3" and m: "j div 3 \<in> set (x # xs)"
    show "f32_to_uchar (f32_mul (unat (d ! (3 * (j div 3)))
              + 256 * unat (d ! (3 * (j div 3) + 1))) (f32_div 255 M))
            = Some (out' ! j)"
    proof (cases "j div 3 \<in> set xs")
      case True
      then show ?thesis using o(3) j by blast
    next
      case False
      then have e: "j div 3 = x" using m by simp
      have "out' ! j = out1 ! j" using o(3) j False by blast
      also have "\<dots> = v" unfolding out1_def using e b by (rule triple_update_nth)
      finally show ?thesis using v by (simp add: e c_def)
    qed
  next
    fix j assume j: "j < n * 3" and m: "j div 3 \<notin> set (x # xs)"
    then have "out' ! j = out1 ! j" using o(3) by auto
    also have "\<dots> = out ! j"
      unfolding out1_def using m by (intro triple_update_other) auto
    finally show "out' ! j = out ! j" .
  qed
  then show ?case using step o(1,2) by auto
qed

lemma wf_image_cells:
  assumes "wf_image htf"
  shows "length (data htf) = cell_count htf * 3" and "cell_count htf * 3 < 2 ^ 32"
proof -
  have "width htf * height htf < 2 ^ 32" using assms by (simp add: wf_image_def)
  then have "cell_count htf = width htf * height htf" by (simp add: cell_count_def)
  then show "length (data htf) = cell_count htf * 3" and "cell_count htf * 3 < 2 ^ 32"
    using assms by (simp_all add: wf_image_def)
qed

lemma maximumValue_result:
  assumes "wf_image htf"
  shows "\<exists>M. maximumValue htf = Inr M
           \<and> (\<forall>i<cell_count htf. cell htf i \<le> M)
           \<and> (M = 0 \<or> (\<exists>i<cell_count htf. cell htf i = M))"
  using find_maximum_result [OF wf_image_cells [OF assms], of "[0..<cell_count htf]" 0]
  by (auto simp: maximumValue_def cell_def)

lemma modifiedHTF_result:
  assumes "wf_image htf" and "maximumValue htf = Inr M" and "0 < M"
    and "\<forall>i<cell_count htf. cell htf i \<le> M"
  shows "\<exists>out. modifiedHTF htf = Inr out \<and> width out = width htf \<and> height out = height htf
           \<and> length (data out) = length (data htf)
           \<and> (\<forall>j<cell_count htf. \<forall>k<3.
                 f32_to_uchar (f32_mul (cell htf j) (f32_div 255 M)) = Some (data out ! (3 * j + k)))"
proof -
  note w = wf_image_cells [OF assms(1)]
  have le: "\<forall>x\<in>set [0..<cell_count htf].
              unat (data htf ! (3 * x)) + 256 * unat (data htf ! (3 * x + 1)) \<le> M"
    using assms(4) by (simp add: cell_def)
  obtain d' where d': "rescale_cells (data htf) (f32_div 255 M) [0..<cell_count htf] (data htf)
                         = Inr d'" "length d' = cell_count htf * 3"
    "\<forall>j<cell_count htf * 3.
       (j div 3 \<in> set [0..<cell_count htf] \<longrightarrow>
          f32_to_uchar (f32_mul (unat (data htf ! (3 * (j div 3)))
              + 256 * unat (data htf ! (3 * (j div 3) + 1))) (f32_div 255 M))
            = Some (d' ! j))
       \<and> (j div 3 \<notin> set [0..<cell_count htf] \<longrightarrow> d' ! j = data htf ! j)"
    using rescale_cells_result [OF w assms(3) _ le w(1)] by auto
  have m: "modifiedHTF htf = Inr (htf\<lparr>data := d'\<rparr>)"
    by (simp add: modifiedHTF_def assms(2) d'(1) Let_def)
  have "f32_to_uchar (f32_mul (cell htf j) (f32_div 255 M)) = Some (d' ! (3 * j + k))"
    if "j < cell_count htf" and "k < 3" for j k
  proof -
    have "3 * j + k < cell_count htf * 3" using that by simp
    moreover have "(3 * j + k) div 3 = j" using that(2) by simp
    ultimately show ?thesis using d'(3) that(1) by (auto simp: cell_def)
  qed
  then show ?thesis using m d'(2) w(1) by auto
qed

lemma rescale_undefined_at_zero:
  assumes "wf_image htf" and "0 < cell_count htf" and "maximumValue htf = Inr 0"
  shows "modifiedHTF htf = Inl ConversionUndefined"
proof -
  note w = wf_image_cells [OF assms(1)]
  have u: "[0..<cell_count htf] = 0 # [1..<cell_count htf]"
    using assms(2) by (simp add: upt_conv_Cons)
  obtain c where r: "read_cell (data htf) 0 = Inr c"
    using read_cell_in_range [OF w assms(2)] by simp
  have "f32_to_uchar (f32_mul c (f32_div 255 0)) = None"
    by (simp add: f32_div_def)
  then have "rescale_cells (data htf) (f32_div 255 0) [0..<cell_count htf] (data htf)
          = Inl ConversionUndefined"
    by (simp add: u r Let_def)
  then show ?thesis by (simp add: modifiedHTF_def assms(3) Let_def)
qed

subsection \<open>Evaluation on small accumulators\<close>

lemmas f32_eval = f32_div_def f32_round_def f32_shift_def bit_length.simps round_half_even_def
  Let_def

lemma rescaled_4_of_4: "f32_to_uchar (f32_mul 4 (f32_div 255 4)) = Some 255"
  by (simp add: f32_eval)

lemma rescaled_2_of_4: "f32_to_uchar (f32_mul 2 (f32_div 255 4)) = Some 127"
  by (simp add: f32_eval)

lemma rescaled_7_of_7: "f32_to_uchar (f32_mul 7 (f32_div 255 7)) = Some 254"
  by (simp add: f32_eval)

lemma rescaled_0_of_7: "f32_to_uchar (f32_mul 0 (f32_div 255 7)) = Some 0"
  by (simp add: f32_eval)

lemmas max_eval = maximumValue_def cell_count_def read_cell_def upt_conv_Cons Let_def

lemmas rescale_eval = cell_count_def read_cell_def upt_conv_Cons Let_def

lemma modifiedHTF_of_4_2: "modifiedHTF \<lparr>width = 2, height = 1, data = [4, 0, 9, 2, 0, 9]\<rparr>
     = Inr \<lparr>width = 2, height = 1, data = [255, 255, 255, 127, 127, 127]\<rparr>"
proof -
  have mv: "maximumValue \<lparr>width = 2, height = 1, data = [4, 0, 9, 2, 0, 9]\<rparr> = Inr 4"
    by (simp add: max_eval)
  show ?thesis unfolding modifiedHTF_def mv by (simp add: rescale_eval rescaled_4_of_4 rescaled_2_of_4)
qed

lemma modifiedHTF_of_7_0: "modifiedHTF \<lparr>width = 2, height = 1, data = [7, 0, 9, 0, 0, 9]\<rparr>
     = Inr \<lparr>width = 2, height = 1, data = [254, 254, 254, 0, 0, 0]\<rparr>"
proof -
  have mv: "maximumValue \<lparr>width = 2, height = 1, data = [7, 0, 9, 0, 0, 9]\<rparr> = Inr 7"
    by (simp add: max_eval)
  show ?thesis unfolding modifiedHTF_def mv by (simp add: rescale_eval rescaled_7_of_7 rescaled_0_of_7)
qed

subsection \<open>The divisor\<close>

text \<open>
  C10. For a well-formed accumulator with a non-zero cell the maximum found by the
  first loop is positive, so the divisor of \<open>255.0f / maximumValue\<close> is not zero, the
  multiplier is a finite number and the rescale returns an image. The source does not
  test the divisor: for an accumulator that has cells, all of them zero, the maximum is 0,
  the multiplier is \<open>+inf\<close>, the product of the first cell is a NaN and its conversion
  to \<open>unsigned char\<close> is undefined.
\<close>

theorem maximumValue_positive:
  assumes "wf_image htf"
  shows "((\<exists>i<cell_count htf. cell htf i \<noteq> 0) \<longrightarrow>
            (\<exists>M n d out. maximumValue htf = Inr M \<and> 0 < M \<and> f32_div 255 M = Fin n d
               \<and> modifiedHTF htf = Inr out))
         \<and> (0 < cell_count htf \<and> (\<forall>i<cell_count htf. cell htf i = 0) \<longrightarrow>
              maximumValue htf = Inr 0 \<and> f32_div 255 0 = Inf
              \<and> modifiedHTF htf = Inl ConversionUndefined)"
proof (rule conjI; rule impI)
  assume "\<exists>i<cell_count htf. cell htf i \<noteq> 0"
  then obtain i where i: "i < cell_count htf" "cell htf i \<noteq> 0" by blast
  obtain M where M: "maximumValue htf = Inr M" "\<forall>i<cell_count htf. cell htf i \<le> M"
    using maximumValue_result [OF assms] by blast
  have "cell htf i \<le> M" using M(2) i(1) by blast
  then have pos: "0 < M" using i(2) by simp
  obtain n d where f: "f32_div 255 M = Fin n d"
    using f32_multiplier [OF pos] by blast
  obtain out where "modifiedHTF htf = Inr out"
    using modifiedHTF_result [OF assms M(1) pos M(2)] by blast
  then show "\<exists>M n d out. maximumValue htf = Inr M \<and> 0 < M \<and> f32_div 255 M = Fin n d
               \<and> modifiedHTF htf = Inr out"
    using M(1) pos f by blast
next
  assume z: "0 < cell_count htf \<and> (\<forall>i<cell_count htf. cell htf i = 0)"
  obtain M where M: "maximumValue htf = Inr M"
    "M = 0 \<or> (\<exists>i<cell_count htf. cell htf i = M)"
    using maximumValue_result [OF assms] by blast
  have "M = 0" using M(2) z by auto
  then have m0: "maximumValue htf = Inr 0" using M(1) by simp
  show "maximumValue htf = Inr 0 \<and> f32_div 255 0 = Inf
          \<and> modifiedHTF htf = Inl ConversionUndefined"
    using m0 rescale_undefined_at_zero [OF assms _ m0] z by (simp add: f32_div_def)
qed

theorem maximumValue_positive_witness:
  "wf_image \<lparr>width = 2, height = 1, data = [0, 0, 9, 3, 1, 9]\<rparr>
   \<and> cell \<lparr>width = 2, height = 1, data = [0, 0, 9, 3, 1, 9]\<rparr> 1 = 259
   \<and> maximumValue \<lparr>width = 2, height = 1, data = [0, 0, 9, 3, 1, 9]\<rparr> = Inr 259
   \<and> wf_image \<lparr>width = 1, height = 1, data = [0, 0, 9]\<rparr>
   \<and> maximumValue \<lparr>width = 1, height = 1, data = [0, 0, 9]\<rparr> = Inr 0
   \<and> modifiedHTF \<lparr>width = 1, height = 1, data = [0, 0, 9]\<rparr> = Inl ConversionUndefined"
proof -
  have w: "wf_image \<lparr>width = 2, height = 1, data = [0, 0, 9, 3, 1, 9]\<rparr>"
    by (simp add: wf_image_def)
  have c1: "cell \<lparr>width = 2, height = 1, data = [0, 0, 9, 3, 1, 9]\<rparr> 1 = 259"
    by (simp add: cell_def)
  have e: "\<exists>i<cell_count \<lparr>width = 2, height = 1, data = [0, 0, 9, 3, 1, 9]\<rparr>.
             cell \<lparr>width = 2, height = 1, data = [0, 0, 9, 3, 1, 9]\<rparr> i \<noteq> 0"
    using c1 by (intro exI [of _ 1]) (simp add: cell_count_def)
  have m: "maximumValue \<lparr>width = 2, height = 1, data = [0, 0, 9, 3, 1, 9]\<rparr> = Inr 259"
    by (simp add: max_eval)
  have w0: "wf_image \<lparr>width = 1, height = 1, data = [0, 0, 9]\<rparr>"
    by (simp add: wf_image_def)
  have z: "0 < cell_count \<lparr>width = 1, height = 1, data = [0, 0, 9]\<rparr>
           \<and> (\<forall>i<cell_count \<lparr>width = 1, height = 1, data = [0, 0, 9]\<rparr>.
                 cell \<lparr>width = 1, height = 1, data = [0, 0, 9]\<rparr> i = 0)"
    by (simp add: cell_count_def cell_def)
  show ?thesis
    using maximumValue_positive [OF w] e maximumValue_positive [OF w0] z w c1 m w0 by blast
qed

subsection \<open>The rescaled values\<close>

text \<open>
  C6 (as the code has it). For a well-formed accumulator with a non-zero cell, the
  rescale finds the maximum \<open>M\<close> of the counts and writes, into the three bytes of every
  cell, the single-precision product of the count and the single-precision quotient
  \<open>255 / M\<close>, with its fraction cut off (not rounded to nearest). A count of 0 gives 0, and
  the count \<open>M\<close> gives 254 or 255. So for an accumulator with one cell at the maximum and
  all others 0, the output has 254 or 255 in that cell and 0 in every other.
\<close>

theorem modifiedHTF_rescale:
  assumes "wf_image htf" and "i < cell_count htf" and "cell htf i \<noteq> 0"
  shows "\<exists>M out. maximumValue htf = Inr M
           \<and> (\<forall>j<cell_count htf. cell htf j \<le> M) \<and> (\<exists>j<cell_count htf. cell htf j = M)
           \<and> modifiedHTF htf = Inr out
           \<and> width out = width htf \<and> height out = height htf
           \<and> length (data out) = length (data htf)
           \<and> (\<forall>j<cell_count htf. \<forall>k<3.
                 f32_to_uchar (f32_mul (cell htf j) (f32_div 255 M)) = Some (data out ! (3 * j + k))
                 \<and> (cell htf j = 0 \<longrightarrow> data out ! (3 * j + k) = 0)
                 \<and> (cell htf j = M \<longrightarrow>
                       data out ! (3 * j + k) = 254 \<or> data out ! (3 * j + k) = 255))
           \<and> ((\<forall>j<cell_count htf. j \<noteq> i \<longrightarrow> cell htf j = 0) \<longrightarrow>
                 (\<forall>k<3. data out ! (3 * i + k) = 254 \<or> data out ! (3 * i + k) = 255)
                 \<and> (\<forall>j<cell_count htf. j \<noteq> i \<longrightarrow> (\<forall>k<3. data out ! (3 * j + k) = 0)))"
proof -
  obtain M where M: "maximumValue htf = Inr M" "\<forall>j<cell_count htf. cell htf j \<le> M"
    "M = 0 \<or> (\<exists>j<cell_count htf. cell htf j = M)"
    using maximumValue_result [OF assms(1)] by blast
  have "cell htf i \<le> M" using M(2) assms(2) by blast
  then have pos: "0 < M" using assms(3) by simp
  then have ex: "\<exists>j<cell_count htf. cell htf j = M" using M(3) by simp
  obtain out where out: "modifiedHTF htf = Inr out" "width out = width htf"
    "height out = height htf" "length (data out) = length (data htf)"
    "\<forall>j<cell_count htf. \<forall>k<3.
       f32_to_uchar (f32_mul (cell htf j) (f32_div 255 M)) = Some (data out ! (3 * j + k))"
    using modifiedHTF_result [OF assms(1) M(1) pos M(2)] by blast
  have v: "(cell htf j = 0 \<longrightarrow> data out ! (3 * j + k) = 0)
           \<and> (cell htf j = M \<longrightarrow> data out ! (3 * j + k) = 254 \<or> data out ! (3 * j + k) = 255)"
    if "j < cell_count htf" and "k < 3" for j k
  proof -
    have s: "f32_to_uchar (f32_mul (cell htf j) (f32_div 255 M)) = Some (data out ! (3 * j + k))"
      using out(5) that by blast
    have "cell htf j \<le> M" using M(2) that(1) by blast
    then show ?thesis using rescaled_value [OF pos, of "cell htf j"] s by auto
  qed
  have one: "(\<forall>k<3. data out ! (3 * i + k) = 254 \<or> data out ! (3 * i + k) = 255)
             \<and> (\<forall>j<cell_count htf. j \<noteq> i \<longrightarrow> (\<forall>k<3. data out ! (3 * j + k) = 0))"
    if o: "\<forall>j<cell_count htf. j \<noteq> i \<longrightarrow> cell htf j = 0"
  proof -
    obtain j where j: "j < cell_count htf" "cell htf j = M" using ex by blast
    have "j = i" using j o pos by (cases "j = i") auto
    then have "cell htf i = M" using j(2) by simp
    then show ?thesis using v assms(2) o by blast
  qed
  show ?thesis
    using M(1,2) ex out(1,2,3,4) out(5) v one by (intro exI [of _ M] exI [of _ out]) blast
qed

theorem modifiedHTF_rescale_witness:
  "wf_image \<lparr>width = 2, height = 1, data = [7, 0, 9, 0, 0, 9]\<rparr>
   \<and> cell \<lparr>width = 2, height = 1, data = [7, 0, 9, 0, 0, 9]\<rparr> 0 = 7
   \<and> cell \<lparr>width = 2, height = 1, data = [7, 0, 9, 0, 0, 9]\<rparr> 1 = 0
   \<and> modifiedHTF \<lparr>width = 2, height = 1, data = [7, 0, 9, 0, 0, 9]\<rparr>
     = Inr \<lparr>width = 2, height = 1, data = [254, 254, 254, 0, 0, 0]\<rparr>"
proof -
  have w: "wf_image \<lparr>width = 2, height = 1, data = [7, 0, 9, 0, 0, 9]\<rparr>"
    by (simp add: wf_image_def)
  have i: "0 < cell_count \<lparr>width = 2, height = 1, data = [7, 0, 9, 0, 0, 9]\<rparr>"
    by (simp add: cell_count_def)
  have c0: "cell \<lparr>width = 2, height = 1, data = [7, 0, 9, 0, 0, 9]\<rparr> 0 = 7"
    by (simp add: cell_def)
  have c1: "cell \<lparr>width = 2, height = 1, data = [7, 0, 9, 0, 0, 9]\<rparr> 1 = 0"
    by (simp add: cell_def)
  have n: "cell \<lparr>width = 2, height = 1, data = [7, 0, 9, 0, 0, 9]\<rparr> 0 \<noteq> 0"
    using c0 by simp
  from modifiedHTF_rescale [OF w i n] obtain out
    where "modifiedHTF \<lparr>width = 2, height = 1, data = [7, 0, 9, 0, 0, 9]\<rparr> = Inr out"
    by blast
  then show ?thesis using w c0 c1 modifiedHTF_of_7_0 by simp
qed

text \<open>
  C6 as stated fails twice. The conversion cuts the fraction off: counts 4 and 2 give
  the second cell \<open>2 * 63.75 = 127.5\<close>, written as 127, where rounding gives 128. And the
  product is rounded to binary32 before it is cut: for a single maximum of 7 the quotient
  \<open>255 / 7\<close> rounds down, seven times it is \<open>255 - 2 ^ - 16\<close> in binary32, and the
  byte is 254, not 255.
\<close>

theorem modifiedHTF_truncates_counterexample:
  "modifiedHTF \<lparr>width = 2, height = 1, data = [4, 0, 9, 2, 0, 9]\<rparr>
     = Inr \<lparr>width = 2, height = 1, data = [255, 255, 255, 127, 127, 127]\<rparr>
   \<and> round (2 * 255 / 4 :: real) = 128
   \<and> modifiedHTF \<lparr>width = 2, height = 1, data = [7, 0, 9, 0, 0, 9]\<rparr>
     = Inr \<lparr>width = 2, height = 1, data = [254, 254, 254, 0, 0, 0]\<rparr>
   \<and> round (7 * 255 / 7 :: real) = 255"
proof -
  have c: "round (2 * 255 / 4 :: real) = 128" by (simp add: round_def)
  have d: "round (7 * 255 / 7 :: real) = 255" by (simp add: round_def)
  show ?thesis using modifiedHTF_of_4_2 modifiedHTF_of_7_0 c d by simp
qed

end

